theory Spec2Isabelle
  imports Main "HOL-Library.Word"
begin

section \<open>Python values\<close>

text \<open>
  The bot of \<^verbatim>\<open>bot.py\<close> handles untyped Python values: message dictionaries, JSON bodies
  decoded by the HTTP client, the user-info dictionary. A value is one of the types that
  \<^verbatim>\<open>save_user_data\<close> names in its \<^verbatim>\<open>isinstance\<close> test, or any other object
  (\<open>PObj\<close>, carrying the name of its class: a Discord role, a guild, a member).
  A float is its 64 bits. A dictionary is an association list in insertion order;
  \<^verbatim>\<open>d.get(k)\<close> is \<open>map_of d k\<close> and \<^verbatim>\<open>k in d\<close> is \<open>map_of d k \<noteq> None\<close>.
\<close>

datatype pyval =
    PNone
  | PBool bool
  | PInt int
  | PFloat "64 word"
  | PStr string
  | PList "pyval list"
  | PDict "(string \<times> pyval) list"
  | PObj string

type_synonym pydict = "(string \<times> pyval) list"

section \<open>Transcript formatter: \<^verbatim>\<open>format_history_for_api\<close>\<close>

text \<open>
  \<^verbatim>\<open>messages[i].get("role") == "user" and "content" in messages[i]\<close> and the same test
  for the assistant role.
\<close>

definition is_user_msg :: "pydict \<Rightarrow> bool" where
  "is_user_msg m \<longleftrightarrow> map_of m ''role'' = Some (PStr ''user'') \<and> map_of m ''content'' \<noteq> None"

definition is_assistant_msg :: "pydict \<Rightarrow> bool" where
  "is_assistant_msg m \<longleftrightarrow>
     map_of m ''role'' = Some (PStr ''assistant'') \<and> map_of m ''content'' \<noteq> None"

text \<open>\<^verbatim>\<open>messages[i]["content"]\<close>, read only after the key was found.\<close>

definition content_of :: "pydict \<Rightarrow> pyval" where
  "content_of m = (case map_of m ''content'' of Some v \<Rightarrow> v | None \<Rightarrow> PNone)"

definition api_pair :: "pyval \<Rightarrow> pyval \<Rightarrow> pydict" where
  "api_pair prompt_content response_content =
     [(''prompt'', prompt_content), (''response'', response_content)]"

text \<open>
  The \<^verbatim>\<open>while i < len(messages)\<close> loop, with the index \<open>i\<close> and the list
  \<open>api_history\<close> built so far.
\<close>

function format_loop :: "pydict list \<Rightarrow> nat \<Rightarrow> pydict list \<Rightarrow> pydict list" where
  "format_loop messages i api_history =
     (if i < length messages then
        (if is_user_msg (messages ! i) then
           (if i + 1 < length messages \<and> is_assistant_msg (messages ! (i + 1)) then
              format_loop messages (i + 2)
                (api_history @ [api_pair (content_of (messages ! i))
                                         (content_of (messages ! (i + 1)))])
            else format_loop messages (i + 1) api_history)
         else format_loop messages (i + 1) api_history)
      else api_history)"
  by pat_completeness auto
termination
  by (relation "measure (\<lambda>(messages, i, api_history). length messages - i)") auto

declare format_loop.simps [simp del]

definition format_history_for_api :: "pydict list \<Rightarrow> pydict list" where
  "format_history_for_api messages = format_loop messages 0 []"

text \<open>
  The formatter as the specification words it, on turns: a turn is a message with a role
  and a content, and the scan looks at the head of what is left.
\<close>

definition role_of :: "pydict \<Rightarrow> pyval option" where
  "role_of m = map_of m ''role''"

definition is_turn :: "pydict \<Rightarrow> bool" where
  "is_turn m \<longleftrightarrow> map_of m ''role'' \<noteq> None \<and> map_of m ''content'' \<noteq> None"

fun format_spec :: "pydict list \<Rightarrow> pydict list" where
  "format_spec [] = []"
| "format_spec [u] = []"
| "format_spec (u # a # rest) =
     (if role_of u = Some (PStr ''user'') then
        (if role_of a = Some (PStr ''assistant'')
         then api_pair (content_of u) (content_of a) # format_spec rest
         else format_spec (a # rest))
      else format_spec (a # rest))"

section \<open>Splitting an answer into messages: \<^verbatim>\<open>chunk_string\<close>\<close>

text \<open>
  \<^verbatim>\<open>len\<close>, slicing and \<^verbatim>\<open>rindex\<close> count the code points of a Python \<^verbatim>\<open>str\<close>, so
  the text to split is a list of code points. \<open>isspace\<close> is the set of code points that
  \<^verbatim>\<open>str.lstrip()\<close> removes.
\<close>

type_synonym pystr = "nat list"

definition NEWLINE :: nat where
  "NEWLINE = 10"

definition SPACE :: nat where
  "SPACE = 32"

definition isspace :: "nat \<Rightarrow> bool" where
  "isspace c \<longleftrightarrow>
     (9 \<le> c \<and> c \<le> 13) \<or> (28 \<le> c \<and> c \<le> 32) \<or> c = 133 \<or> c = 160 \<or> c = 5760 \<or>
     (8192 \<le> c \<and> c \<le> 8202) \<or> c = 8232 \<or> c = 8233 \<or> c = 8239 \<or> c = 8287 \<or> c = 12288"

definition lstrip :: "pystr \<Rightarrow> pystr" where
  "lstrip text = dropWhile isspace text"

text \<open>
  A slice bound \<open>k\<close> on a sequence of length \<open>n\<close>: a negative bound counts from the end,
  and every bound is clipped to \<open>0 .. n\<close>. \<^verbatim>\<open>xs[:k]\<close> is \<open>slice_to\<close>, \<^verbatim>\<open>xs[k:]\<close> is
  \<open>slice_from\<close>.
\<close>

definition slice_bound :: "int \<Rightarrow> nat \<Rightarrow> nat" where
  "slice_bound k n = (if k < 0 then nat (max 0 (k + int n)) else min (nat k) n)"

definition slice_to :: "'a list \<Rightarrow> int \<Rightarrow> 'a list" where
  "slice_to xs k = take (slice_bound k (length xs)) xs"

definition slice_from :: "'a list \<Rightarrow> int \<Rightarrow> 'a list" where
  "slice_from xs k = drop (slice_bound k (length xs)) xs"

text \<open>
  \<^verbatim>\<open>text.rindex(char, start, end)\<close>: the highest index in the slice at which the
  character stands; \<open>None\<close> is the \<^verbatim>\<open>ValueError\<close>.
\<close>

definition rindex :: "pystr \<Rightarrow> nat \<Rightarrow> int \<Rightarrow> int \<Rightarrow> nat option" where
  "rindex text c start end =
     (let s = slice_bound start (length text); e = slice_bound end (length text)
      in case filter (\<lambda>i. text ! i = c) (rev [s..<e]) of [] \<Rightarrow> None | i # _ \<Rightarrow> Some i)"

text \<open>
  The body of the loop up to the choice of \<^verbatim>\<open>split_index\<close>: it starts at \<open>-1\<close>, the
  \<^verbatim>\<open>for char in ('\n', ' ')\<close> loop raises it to the index found, and \<open>-1\<close> at the end
  becomes \<^verbatim>\<open>max_length\<close>.
\<close>

definition find_split :: "pystr \<Rightarrow> int \<Rightarrow> int" where
  "find_split text max_length =
     (let split_index =
            fold (\<lambda>c split_index.
                    case rindex text c 0 max_length of
                      Some idx \<Rightarrow> max split_index (int idx)
                    | None \<Rightarrow> split_index)
                 [NEWLINE, SPACE] (- 1)
      in if split_index = - 1 then max_length else split_index)"

text \<open>
  The \<^verbatim>\<open>while len(text) > max_length\<close> loop and the lines after it. Nothing in the
  source bounds the number of iterations, so the loop is a partial function: \<open>None\<close> is a
  run that never returns.
\<close>

partial_function (option) chunk_loop :: "pystr \<Rightarrow> int \<Rightarrow> pystr list \<Rightarrow> pystr list option" where
  "chunk_loop text max_length chunks =
     (if int (length text) > max_length then
        (let split_index = find_split text max_length
         in chunk_loop (lstrip (slice_from text split_index)) max_length
              (chunks @ [slice_to text split_index]))
      else Some (if text \<noteq> [] then chunks @ [text] else chunks))"

definition chunk_string :: "pystr \<Rightarrow> int \<Rightarrow> pystr list option" where
  "chunk_string text max_length = chunk_loop text max_length []"

text \<open>
  The split point as the specification words it: the last newline or space among the first
  \<open>limit\<close> characters, and the limit itself when there is none.
\<close>

definition is_break :: "nat \<Rightarrow> bool" where
  "is_break c \<longleftrightarrow> c = NEWLINE \<or> c = SPACE"

definition split_point :: "pystr \<Rightarrow> nat \<Rightarrow> nat" where
  "split_point text limit =
     (if \<exists>i < limit. i < length text \<and> is_break (text ! i)
      then Max {i. i < limit \<and> i < length text \<and> is_break (text ! i)}
      else limit)"

section \<open>History store\<close>

text \<open>\<^verbatim>\<open>str(user_id)\<close>: the decimal digits, with a minus sign for a negative number.\<close>

fun digits_of :: "nat \<Rightarrow> string" where
  "digits_of n =
     (if n < 10 then [char_of (48 + n)]
      else digits_of (n div 10) @ [char_of (48 + n mod 10)])"

declare digits_of.simps [simp del]

definition str_of_int :: "int \<Rightarrow> string" where
  "str_of_int i = (if i < 0 then CHR ''-'' # digits_of (nat (- i)) else digits_of (nat i))"

text \<open>
  The dictionary that \<^verbatim>\<open>get_user_data\<close> returns, the entry of
  \<^verbatim>\<open>in_memory_storage\<close> for one user, and the MongoDB document of one user. In the two
  stored forms \<open>None\<close> for the user info is a key that was never set. A time stamp is a
  number read from the clock.
\<close>

record user_data =
  history :: "pydict list"
  conversation_id :: pyval
  user_info :: "pydict option"

record mem_entry =
  mem_history :: "pydict list"
  mem_conversation_id :: pyval
  mem_last_updated :: nat
  mem_user_info :: "pydict option"

record mongo_doc =
  conversation_history :: "pydict list"
  doc_conversation_id :: pyval
  doc_user_info :: "pydict option"
  last_updated :: nat

text \<open>
  The module's globals that the store reads and writes. The collection handle carries the
  documents of the collection, keyed by \<^verbatim>\<open>_id\<close>.
\<close>

record storage =
  STORAGE_TYPE :: string
  mongo_client :: "string option"
  mongo_collection :: "(string \<rightharpoonup> mongo_doc) option"
  in_memory_storage :: "string \<rightharpoonup> mem_entry"

text \<open>The settings read from the environment when the module is loaded.\<close>

record config =
  MONGODB_URI :: "string option"
  MONGODB_DB_NAME :: string
  MONGODB_COLLECTION_NAME :: string
  API_URL :: string
  API_KEY :: "string option"

text \<open>Truth of an optional string: \<^verbatim>\<open>None\<close> and the empty string are false.\<close>

definition truthy_str :: "string option \<Rightarrow> bool" where
  "truthy_str s \<longleftrightarrow> (case s of None \<Rightarrow> False | Some v \<Rightarrow> v \<noteq> [])"

text \<open>Truth of \<^verbatim>\<open>user_info\<close>: \<^verbatim>\<open>None\<close> and the empty dictionary are false.\<close>

definition truthy_dict :: "pydict option \<Rightarrow> bool" where
  "truthy_dict d \<longleftrightarrow> (case d of None \<Rightarrow> False | Some kvs \<Rightarrow> kvs \<noteq> [])"

subsection \<open>\<^verbatim>\<open>initialize_storage\<close>\<close>

datatype level = INFO | WARNING | ERROR

datatype exit = SystemExit int

text \<open>
  What the connection attempt does: it succeeds and the collection is at hand, it raises
  \<^verbatim>\<open>ConnectionFailure\<close> or \<^verbatim>\<open>ConfigurationError\<close>, or it raises anything else. The
  string is the text of the exception.
\<close>

datatype connect_outcome =
    Connected "string \<rightharpoonup> mongo_doc"
  | ConnectFailed string
  | ConnectUnexpected string

definition initialize_storage ::
    "config \<Rightarrow> connect_outcome \<Rightarrow> storage \<Rightarrow> (level \<times> string) list \<times> (exit + storage)" where
  "initialize_storage cfg conn st =
     (if STORAGE_TYPE st = ''mongodb'' then
        (if \<not> truthy_str (MONGODB_URI cfg) then
           ([(ERROR, ''STORAGE_TYPE is 'mongodb' but MONGODB_URI is not set. Exiting.'')],
            Inl (SystemExit 1))
         else
           (let uri = (case MONGODB_URI cfg of Some u \<Rightarrow> u | None \<Rightarrow> []);
                attempt = (INFO, ''Attempting to connect to MongoDB: '' @ take 15 uri
                                   @ ''... DB: '' @ MONGODB_DB_NAME cfg)
            in case conn of
                 Connected coll \<Rightarrow>
                   ([attempt,
                     (INFO, ''Successfully connected to MongoDB and selected collection ''
                            @ [CHR 39] @ MONGODB_COLLECTION_NAME cfg @ [CHR 39] @ ''.'')],
                    Inr (st\<lparr>mongo_client := Some uri, mongo_collection := Some coll\<rparr>))
               | ConnectFailed e \<Rightarrow>
                   ([attempt,
                     (ERROR, ''Failed to connect to MongoDB: '' @ e),
                     (WARNING, ''Falling back to in-memory storage due to MongoDB connection error.'')],
                    Inr (st\<lparr>STORAGE_TYPE := ''memory'', mongo_client := None,
                             mongo_collection := None\<rparr>))
               | ConnectUnexpected e \<Rightarrow>
                   ([attempt,
                     (ERROR, ''An unexpected error occurred during MongoDB initialization: '' @ e),
                     (WARNING, ''Falling back to in-memory storage.'')],
                    Inr (st\<lparr>STORAGE_TYPE := ''memory'', mongo_client := None,
                             mongo_collection := None\<rparr>))))
      else if STORAGE_TYPE st = ''memory'' then
        ([(INFO, ''Using in-memory storage for chat history (will be lost on restart).'')],
         Inr st)
      else
        ([(WARNING, ''Unknown STORAGE_TYPE '' @ [CHR 39] @ STORAGE_TYPE st @ [CHR 39]
                    @ ''. Defaulting to in-memory storage.'')],
         Inr (st\<lparr>STORAGE_TYPE := ''memory''\<rparr>)))"

subsection \<open>\<^verbatim>\<open>get_user_data\<close> and \<^verbatim>\<open>save_user_data\<close>\<close>

text \<open>A call of the database driver returns or raises; a raise is caught and logged.\<close>

datatype io_outcome = IoOk | IoRaises

text \<open>
  The test \<^verbatim>\<open>STORAGE_TYPE == "mongodb" and mongo_collection is not None\<close> that sends
  a read or a write to the database; otherwise it goes to the dictionary in memory.
\<close>

definition uses_mongodb :: "storage \<Rightarrow> bool" where
  "uses_mongodb st \<longleftrightarrow> STORAGE_TYPE st = ''mongodb'' \<and> mongo_collection st \<noteq> None"

definition default_data :: user_data where
  "default_data = \<lparr>history = [], conversation_id = PNone, user_info = None\<rparr>"

definition get_user_data :: "storage \<Rightarrow> io_outcome \<Rightarrow> int \<Rightarrow> user_data" where
  "get_user_data st io user_id =
     (let user_id_str = str_of_int user_id
      in case (STORAGE_TYPE st = ''mongodb'', mongo_collection st) of
           (True, Some coll) \<Rightarrow>
             (case io of
                IoRaises \<Rightarrow> default_data
              | IoOk \<Rightarrow>
                  (case coll user_id_str of
                     Some doc \<Rightarrow>
                       \<lparr>history = conversation_history doc,
                        conversation_id = doc_conversation_id doc,
                        user_info = doc_user_info doc\<rparr>
                   | None \<Rightarrow> default_data))
         | _ \<Rightarrow>
             (case in_memory_storage st user_id_str of
                Some data \<Rightarrow>
                  \<lparr>history = mem_history data,
                   conversation_id = mem_conversation_id data,
                   user_info = mem_user_info data\<rparr>
              | None \<Rightarrow> default_data))"

text \<open>
  \<^verbatim>\<open>isinstance(v, (str, int, float, bool, list, dict, type(None)))\<close>: a test of the
  value's own type, which does not look inside a list or a dictionary.
\<close>

fun isinstance_serializable :: "pyval \<Rightarrow> bool" where
  "isinstance_serializable (PObj cls) = False"
| "isinstance_serializable v = True"

definition serializable_user_info :: "pydict \<Rightarrow> pydict" where
  "serializable_user_info info = filter (\<lambda>(k, v). isinstance_serializable v) info"

definition max_history_len_pairs :: int where
  "max_history_len_pairs = 10"

definition save_user_data ::
    "storage \<Rightarrow> nat \<Rightarrow> io_outcome \<Rightarrow> int \<Rightarrow> pydict list \<Rightarrow> pyval \<Rightarrow> pydict option \<Rightarrow> storage" where
  "save_user_data st now io user_id hist conv_id info =
     (let user_id_str = str_of_int user_id;
          limited_history = slice_from hist (- (max_history_len_pairs * 2))
      in case (STORAGE_TYPE st = ''mongodb'', mongo_collection st) of
           (True, Some coll) \<Rightarrow>
             (case io of
                IoRaises \<Rightarrow> st
              | IoOk \<Rightarrow>
                  (let old = (case coll user_id_str of
                                Some doc \<Rightarrow> doc
                              | None \<Rightarrow> \<lparr>conversation_history = [], doc_conversation_id = PNone,
                                          doc_user_info = None, last_updated = now\<rparr>);
                       set1 = old\<lparr>conversation_history := limited_history,
                                  doc_conversation_id := conv_id,
                                  last_updated := now\<rparr>;
                       set2 = (if truthy_dict info
                               then set1\<lparr>doc_user_info :=
                                       map_option serializable_user_info info\<rparr>
                               else set1)
                   in st\<lparr>mongo_collection := Some (coll(user_id_str \<mapsto> set2))\<rparr>))
         | _ \<Rightarrow>
             (let old = (case in_memory_storage st user_id_str of
                           Some e \<Rightarrow> e
                         | None \<Rightarrow> \<lparr>mem_history = [], mem_conversation_id = PNone,
                                     mem_last_updated = now, mem_user_info = None\<rparr>);
                  upd1 = old\<lparr>mem_history := limited_history,
                             mem_conversation_id := conv_id,
                             mem_last_updated := now\<rparr>;
                  upd2 = (if truthy_dict info
                          then upd1\<lparr>mem_user_info := map_option serializable_user_info info\<rparr>
                          else upd1)
              in st\<lparr>in_memory_storage := (in_memory_storage st)(user_id_str \<mapsto> upd2)\<rparr>))"

text \<open>
  What the specification asks of a stored value: a primitive, or a list or dictionary of
  such values, at every depth.
\<close>

fun deep_serializable :: "pyval \<Rightarrow> bool" where
  "deep_serializable (PObj cls) = False"
| "deep_serializable (PList vs) = (\<forall>v \<in> set vs. deep_serializable v)"
| "deep_serializable (PDict kvs) = (\<forall>v \<in> set (map snd kvs). deep_serializable v)"
| "deep_serializable v = True"

section \<open>Answer client: \<^verbatim>\<open>generate_answer\<close>\<close>

text \<open>
  The exceptions that the handlers of \<^verbatim>\<open>generate_answer\<close> tell apart.
  \<^verbatim>\<open>ContentTypeError\<close> is a \<^verbatim>\<open>ClientError\<close> of the HTTP library; \<open>ClientError\<close>
  here is any other one. \<open>AttributeError\<close> is what \<^verbatim>\<open>.get\<close> raises on a value that is
  not a dictionary, \<open>UnboundLocalError\<close> what reading \<^verbatim>\<open>resp\<close> raises before it was bound.
\<close>

datatype http_exn =
    ClientConnectorError
  | ClientError
  | ContentTypeError
  | JSONDecodeError
  | AttributeError
  | UnboundLocalError
  | OtherException

text \<open>
  A response: its status, and what \<^verbatim>\<open>await resp.json()\<close> and \<^verbatim>\<open>await resp.text()\<close>
  do on it (return a value, or raise).
\<close>

record http_response =
  status :: int
  json_result :: "http_exn + pyval"
  text_result :: "http_exn + string"

datatype http_outcome = Response http_response | PostRaises http_exn

record request =
  url :: string
  question :: string
  api_key :: string
  history_json :: string
  req_conversation_id :: pyval
  timeout_total :: nat

record answer_doc =
  answer :: pyval
  new_conversation_id :: pyval

definition default_error_msg :: string where
  "default_error_msg = ''Sorry, I couldn't get an answer from the backend service.''"

text \<open>\<^verbatim>\<open>d.get(key, default)\<close>.\<close>

definition dict_get :: "pydict \<Rightarrow> string \<Rightarrow> pyval \<Rightarrow> pyval" where
  "dict_get d k dflt = (case map_of d k of Some v \<Rightarrow> v | None \<Rightarrow> dflt)"

text \<open>
  The body of \<^verbatim>\<open>async with session.post(...) as resp\<close>. \<open>Inl\<close> is an exception that
  leaves the body. In the branch for a status other than 200, the inner \<^verbatim>\<open>try\<close>
  catches \<^verbatim>\<open>JSONDecodeError\<close> and \<^verbatim>\<open>ContentTypeError\<close> only, and its handler reads
  the text again.
\<close>

definition status_answer :: "http_response \<Rightarrow> pyval \<Rightarrow> answer_doc" where
  "status_answer resp conv_id =
     \<lparr>answer = PStr (default_error_msg @ '' (Error: '' @ str_of_int (status resp) @ '')''),
      new_conversation_id = conv_id\<rparr>"

definition inner_handler :: "http_response \<Rightarrow> pyval \<Rightarrow> http_exn + answer_doc" where
  "inner_handler resp conv_id =
     (case text_result resp of
        Inl e \<Rightarrow> Inl e
      | Inr t \<Rightarrow> Inr (status_answer resp conv_id))"

definition caught_inside :: "http_exn \<Rightarrow> bool" where
  "caught_inside e \<longleftrightarrow> e = JSONDecodeError \<or> e = ContentTypeError"

definition process_response :: "http_response \<Rightarrow> pyval \<Rightarrow> http_exn + answer_doc" where
  "process_response resp conv_id =
     (if status resp \<noteq> 200 then
        (case json_result resp of
           Inl e \<Rightarrow> (if caught_inside e then inner_handler resp conv_id else Inl e)
         | Inr error_body \<Rightarrow>
             (case error_body of
                PDict d \<Rightarrow>
                  (case text_result resp of
                     Inl e \<Rightarrow> (if caught_inside e then inner_handler resp conv_id else Inl e)
                   | Inr t \<Rightarrow> Inr (status_answer resp conv_id))
              | _ \<Rightarrow> Inl AttributeError))
      else
        (case json_result resp of
           Inl e \<Rightarrow> Inl e
         | Inr data \<Rightarrow>
             (case data of
                PDict d \<Rightarrow>
                  Inr \<lparr>answer = dict_get d ''answer'' (PStr default_error_msg),
                       new_conversation_id = dict_get d ''conversation_id'' conv_id\<rparr>
              | _ \<Rightarrow> Inl AttributeError)))"

text \<open>
  The \<^verbatim>\<open>except\<close> clauses of the outer \<^verbatim>\<open>try\<close>, in the order of the source. The
  clause for \<^verbatim>\<open>JSONDecodeError\<close> reads \<^verbatim>\<open>resp.text()\<close> for its log line, so it raises
  in turn when that read raises or when no response was bound.
\<close>

definition failure :: "string \<Rightarrow> pyval \<Rightarrow> answer_doc" where
  "failure category conv_id =
     \<lparr>answer = PStr (default_error_msg @ '' ('' @ category @ '')''),
      new_conversation_id = conv_id\<rparr>"

fun handle_exn :: "http_response option \<Rightarrow> pyval \<Rightarrow> http_exn \<Rightarrow> http_exn + answer_doc" where
  "handle_exn resp conv_id ClientConnectorError = Inr (failure ''Network Error'' conv_id)"
| "handle_exn resp conv_id ClientError = Inr (failure ''Client Error'' conv_id)"
| "handle_exn resp conv_id ContentTypeError = Inr (failure ''Client Error'' conv_id)"
| "handle_exn resp conv_id JSONDecodeError =
     (case resp of
        None \<Rightarrow> Inl UnboundLocalError
      | Some r \<Rightarrow>
          (case text_result r of
             Inl e \<Rightarrow> Inl e
           | Inr t \<Rightarrow> Inr (failure ''Invalid Response Format'' conv_id)))"
| "handle_exn resp conv_id e = Inr (failure ''Unexpected Error'' conv_id)"

text \<open>
  \<^verbatim>\<open>generate_answer\<close>. The JSON encoder and the network are parameters: \<open>json_dumps\<close>
  is \<^verbatim>\<open>json.dumps\<close> (\<open>None\<close> is its \<^verbatim>\<open>TypeError\<close>), \<open>post\<close> is what the server
  does with a request. The result comes with the list of the requests that were sent.
\<close>

definition generate_answer ::
    "config \<Rightarrow> (pydict list \<Rightarrow> string option) \<Rightarrow> (request \<Rightarrow> http_outcome)
      \<Rightarrow> string \<Rightarrow> pydict list \<Rightarrow> pyval \<Rightarrow> (http_exn + answer_doc) \<times> request list" where
  "generate_answer cfg json_dumps post q messages conv_id =
     (if \<not> truthy_str (API_KEY cfg) then
        (Inr \<lparr>answer = PStr ''Error: Backend API key is not configured.'',
              new_conversation_id = conv_id\<rparr>, [])
      else
        (let history_json_string =
               (case json_dumps (format_history_for_api messages) of
                  Some s \<Rightarrow> s
                | None \<Rightarrow> ''[]'');
             payload = \<lparr>url = API_URL cfg, question = q,
                        api_key = (case API_KEY cfg of Some k \<Rightarrow> k | None \<Rightarrow> []),
                        history_json = history_json_string,
                        req_conversation_id = conv_id, timeout_total = 120\<rparr>
         in (case post payload of
               PostRaises e \<Rightarrow> handle_exn None conv_id e
             | Response resp \<Rightarrow>
                 (case process_response resp conv_id of
                    Inl e \<Rightarrow> handle_exn (Some resp) conv_id e
                  | Inr doc \<Rightarrow> Inr doc),
             [payload])))"

section \<open>The formatter follows the scan of the specification\<close>

lemma format_loop_spec:
  "\<forall>m\<in>set messages. is_turn m \<Longrightarrow>
   format_loop messages i acc = acc @ format_spec (drop i messages)"
proof (induction messages i acc rule: format_loop.induct)
  case (1 messages i acc)
  show ?case
  proof (cases "i < length messages")
    case False
    then show ?thesis by (simp add: format_loop.simps[of messages i acc])
  next
    case True
    note lt = True
    have d0: "drop i messages = messages ! i # drop (Suc i) messages"
      using lt by (simp add: Cons_nth_drop_Suc)
    have t0: "is_turn (messages ! i)" using 1(4) lt by simp
    show ?thesis
    proof (cases "Suc i < length messages")
      case False
      then have "drop (Suc i) messages = []" by simp
      with d0 have d: "drop i messages = [messages ! i]" by simp
      show ?thesis using lt False 1(2,3)[OF lt] 1(4)
        by (simp add: format_loop.simps[of messages i acc] d)
    next
      case True
      have d1: "drop (Suc i) messages = messages ! Suc i # drop (Suc (Suc i)) messages"
        using True by (simp add: Cons_nth_drop_Suc)
      have t1: "is_turn (messages ! Suc i)" using 1(4) True by simp
      show ?thesis using lt True 1(1,2,3)[OF lt] 1(4) t0 t1
        apply (subst format_loop.simps)
        apply (subst d0) apply (subst d1)
        apply (auto simp: is_user_msg_def is_assistant_msg_def role_of_def is_turn_def d1)
        done
    qed
  qed
qed

lemma format_spec_indices:
  "\<exists>js. sorted_wrt (<) js \<and>
     (\<forall>j\<in>set js. Suc j < length ms \<and> role_of (ms ! j) = Some (PStr ''user'')
         \<and> role_of (ms ! Suc j) = Some (PStr ''assistant'')) \<and>
     format_spec ms = map (\<lambda>j. api_pair (content_of (ms ! j)) (content_of (ms ! Suc j))) js"
proof (induction ms rule: format_spec.induct)
  case 1
  show ?case by (rule exI[of _ "[]"]) simp
next
  case (2 u)
  show ?case by (rule exI[of _ "[]"]) simp
next
  case (3 u a rest)
  show ?case
  proof (cases "role_of u = Some (PStr ''user'') \<and> role_of a = Some (PStr ''assistant'')")
    case True
    from 3(1) True obtain js where js: "sorted_wrt (<) js"
      "\<forall>j\<in>set js. Suc j < length rest \<and> role_of (rest ! j) = Some (PStr ''user'')
         \<and> role_of (rest ! Suc j) = Some (PStr ''assistant'')"
      "format_spec rest = map (\<lambda>j. api_pair (content_of (rest ! j)) (content_of (rest ! Suc j))) js"
      by blast
    show ?thesis
      apply (rule exI[of _ "0 # map (\<lambda>j. Suc (Suc j)) js"])
      using True js by (auto simp: sorted_wrt_map comp_def)
  next
    case False
    then have eq: "format_spec (u # a # rest) = format_spec (a # rest)" by auto
    from False 3(2,3) obtain js where js: "sorted_wrt (<) js"
      "\<forall>j\<in>set js. Suc j < length (a # rest) \<and> role_of ((a # rest) ! j) = Some (PStr ''user'')
         \<and> role_of ((a # rest) ! Suc j) = Some (PStr ''assistant'')"
      "format_spec (a # rest) = map (\<lambda>j. api_pair (content_of ((a # rest) ! j)) (content_of ((a # rest) ! Suc j))) js"
      by blast
    show ?thesis
      apply (rule exI[of _ "map Suc js"])
      using js eq by (auto simp: sorted_wrt_map comp_def simp del: format_spec.simps)
  qed
qed

lemma format_spec_trailing_user:
  "role_of u = Some (PStr ''user'') \<Longrightarrow> format_spec (ms @ [u]) = format_spec ms"
proof (induction ms rule: format_spec.induct)
  case 1
  then show ?case by simp
next
  case (2 v)
  then show ?case by simp
next
  case (3 v a rest)
  then show ?case by (cases rest) auto
qed

lemma format_history_eq_spec:
  "\<forall>m\<in>set messages. is_turn m \<Longrightarrow> format_history_for_api messages = format_spec messages"
  by (simp add: format_history_for_api_def format_loop_spec)

lemma format_history_scan_aux:
  assumes "\<forall>m\<in>set messages. is_turn m"
  shows "(messages = [] \<longrightarrow> format_history_for_api messages = [])
    \<and> (\<forall>u a rest. messages = u # a # rest \<and> role_of u = Some (PStr ''user'')
            \<and> role_of a = Some (PStr ''assistant'')
          \<longrightarrow> format_history_for_api messages
              = api_pair (content_of u) (content_of a) # format_history_for_api rest)
    \<and> (\<forall>u rest. messages = u # rest \<and> role_of u = Some (PStr ''user'')
            \<and> (rest = [] \<or> role_of (hd rest) \<noteq> Some (PStr ''assistant''))
          \<longrightarrow> format_history_for_api messages = format_history_for_api rest)
    \<and> (\<forall>u rest. messages = u # rest \<and> role_of u \<noteq> Some (PStr ''user'')
          \<longrightarrow> format_history_for_api messages = format_history_for_api rest)
    \<and> (\<forall>u. is_turn u \<and> role_of u = Some (PStr ''user'')
          \<longrightarrow> format_history_for_api (messages @ [u]) = format_history_for_api messages)
    \<and> (\<exists>js. sorted_wrt (<) js
          \<and> (\<forall>j\<in>set js. Suc j < length messages
                \<and> role_of (messages ! j) = Some (PStr ''user'')
                \<and> role_of (messages ! Suc j) = Some (PStr ''assistant''))
          \<and> format_history_for_api messages
              = map (\<lambda>j. api_pair (content_of (messages ! j)) (content_of (messages ! Suc j))) js)"
proof -
  have fm: "format_history_for_api messages = format_spec messages"
    using assms by (rule format_history_eq_spec)
  have tl: "format_history_for_api rest = format_spec rest" if "set rest \<subseteq> set messages" for rest
  proof (rule format_history_eq_spec)
    show "\<forall>m\<in>set rest. is_turn m" using that assms by blast
  qed
  have c1: "messages = [] \<longrightarrow> format_history_for_api messages = []"
  proof
    assume "messages = []"
    with fm show "format_history_for_api messages = []" by simp
  qed
  have c2: "format_history_for_api messages
              = api_pair (content_of u) (content_of a) # format_history_for_api rest"
    if h: "messages = u # a # rest \<and> role_of u = Some (PStr ''user'')
            \<and> role_of a = Some (PStr ''assistant'')" for u a rest
  proof -
    have "set rest \<subseteq> set messages" using h by auto
    then have r: "format_history_for_api rest = format_spec rest" by (rule tl)
    have "format_spec messages = api_pair (content_of u) (content_of a) # format_spec rest"
      using h by simp
    then show ?thesis unfolding fm r .
  qed
  have c3: "format_history_for_api messages = format_history_for_api rest"
    if h: "messages = u # rest \<and> role_of u = Some (PStr ''user'')
            \<and> (rest = [] \<or> role_of (hd rest) \<noteq> Some (PStr ''assistant''))" for u rest
  proof -
    have "set rest \<subseteq> set messages" using h by auto
    then have r: "format_history_for_api rest = format_spec rest" by (rule tl)
    have "format_spec messages = format_spec rest"
      using h by (cases rest) simp_all
    then show ?thesis unfolding fm r .
  qed
  have c4: "format_history_for_api messages = format_history_for_api rest"
    if h: "messages = u # rest \<and> role_of u \<noteq> Some (PStr ''user'')" for u rest
  proof -
    have "set rest \<subseteq> set messages" using h by auto
    then have r: "format_history_for_api rest = format_spec rest" by (rule tl)
    have "format_spec messages = format_spec rest"
      using h by (cases rest) simp_all
    then show ?thesis unfolding fm r .
  qed
  have c5: "format_history_for_api (messages @ [u]) = format_history_for_api messages"
    if h: "is_turn u \<and> role_of u = Some (PStr ''user'')" for u
  proof -
    have "\<forall>m\<in>set (messages @ [u]). is_turn m" using h assms by simp
    then have "format_history_for_api (messages @ [u]) = format_spec (messages @ [u])"
      by (rule format_history_eq_spec)
    also have "\<dots> = format_spec messages"
      using h by (simp add: format_spec_trailing_user)
    finally show ?thesis unfolding fm .
  qed
  have c6: "\<exists>js. sorted_wrt (<) js
          \<and> (\<forall>j\<in>set js. Suc j < length messages
                \<and> role_of (messages ! j) = Some (PStr ''user'')
                \<and> role_of (messages ! Suc j) = Some (PStr ''assistant''))
          \<and> format_history_for_api messages
              = map (\<lambda>j. api_pair (content_of (messages ! j)) (content_of (messages ! Suc j))) js"
    unfolding fm by (rule format_spec_indices)
  show ?thesis
    apply (intro conjI)
    subgoal by (rule c1)
    subgoal by (intro allI impI) (rule c2)
    subgoal by (intro allI impI) (rule c3)
    subgoal by (intro allI impI) (rule c4)
    subgoal by (intro allI impI) (rule c5)
    subgoal by (rule c6)
    done
qed

lemma is_turn_content_of:
  "is_turn m \<Longrightarrow> content_of m = the (map_of m ''content'')"
  by (auto simp: is_turn_def content_of_def)

text \<open>
  Claim C1. On a sequence of turns the formatter scans from the left: a user turn followed
  at once by an assistant turn gives the pair with the user content as \<^verbatim>\<open>prompt\<close> and the assistant content as
  \<^verbatim>\<open>response\<close>, and the scan goes on after
  both; a user turn with no assistant turn after it (the last turn of the sequence among
  them) gives nothing and the scan goes on after it; a turn of another role gives nothing
  and the scan goes on after it. Appending a user turn to the end changes nothing. The pairs
  of the result are those at a strictly increasing list of positions of the input, so they
  stand in the order of their user turns.
\<close>

theorem format_history_scan:
  assumes "\<forall>m\<in>set messages. is_turn m"
  shows "(messages = [] \<longrightarrow> format_history_for_api messages = [])
    \<and> (\<forall>u a rest p r. messages = u # a # rest
            \<and> map_of u ''role'' = Some (PStr ''user'')
            \<and> map_of a ''role'' = Some (PStr ''assistant'')
            \<and> map_of u ''content'' = Some p \<and> map_of a ''content'' = Some r
          \<longrightarrow> format_history_for_api messages
              = [(''prompt'', p), (''response'', r)] # format_history_for_api rest)
    \<and> (\<forall>u rest. messages = u # rest \<and> map_of u ''role'' = Some (PStr ''user'')
            \<and> (rest = [] \<or> map_of (hd rest) ''role'' \<noteq> Some (PStr ''assistant''))
          \<longrightarrow> format_history_for_api messages = format_history_for_api rest)
    \<and> (\<forall>u rest. messages = u # rest \<and> map_of u ''role'' \<noteq> Some (PStr ''user'')
          \<longrightarrow> format_history_for_api messages = format_history_for_api rest)
    \<and> (\<forall>u. is_turn u \<and> map_of u ''role'' = Some (PStr ''user'')
          \<longrightarrow> format_history_for_api (messages @ [u]) = format_history_for_api messages)
    \<and> (\<exists>js. sorted_wrt (<) js
          \<and> (\<forall>j\<in>set js. Suc j < length messages
                \<and> map_of (messages ! j) ''role'' = Some (PStr ''user'')
                \<and> map_of (messages ! Suc j) ''role'' = Some (PStr ''assistant''))
          \<and> format_history_for_api messages
              = map (\<lambda>j. [(''prompt'', the (map_of (messages ! j) ''content'')),
                           (''response'', the (map_of (messages ! Suc j) ''content''))]) js)"
proof -
  note aux = format_history_scan_aux[OF assms, unfolded role_of_def api_pair_def]
  have c1: "messages = [] \<longrightarrow> format_history_for_api messages = []"
    using aux by (elim conjE)
  have a2: "\<forall>u a rest. messages = u # a # rest \<and> map_of u ''role'' = Some (PStr ''user'')
            \<and> map_of a ''role'' = Some (PStr ''assistant'')
          \<longrightarrow> format_history_for_api messages
              = [(''prompt'', content_of u), (''response'', content_of a)]
                  # format_history_for_api rest"
    using aux by (elim conjE)
  have c2: "format_history_for_api messages
              = [(''prompt'', p), (''response'', r)] # format_history_for_api rest"
    if h: "messages = u # a # rest
            \<and> map_of u ''role'' = Some (PStr ''user'')
            \<and> map_of a ''role'' = Some (PStr ''assistant'')
            \<and> map_of u ''content'' = Some p \<and> map_of a ''content'' = Some r" for u a rest p r
  proof -
    have "content_of u = p" "content_of a = r" using h by (simp_all add: content_of_def)
    moreover have "format_history_for_api messages
              = [(''prompt'', content_of u), (''response'', content_of a)]
                  # format_history_for_api rest"
      using a2 h by blast
    ultimately show ?thesis by simp
  qed
  have c3: "\<forall>u rest. messages = u # rest \<and> map_of u ''role'' = Some (PStr ''user'')
            \<and> (rest = [] \<or> map_of (hd rest) ''role'' \<noteq> Some (PStr ''assistant''))
          \<longrightarrow> format_history_for_api messages = format_history_for_api rest"
    using aux by (elim conjE)
  have c4: "\<forall>u rest. messages = u # rest \<and> map_of u ''role'' \<noteq> Some (PStr ''user'')
          \<longrightarrow> format_history_for_api messages = format_history_for_api rest"
    using aux by (elim conjE)
  have c5: "\<forall>u. is_turn u \<and> map_of u ''role'' = Some (PStr ''user'')
          \<longrightarrow> format_history_for_api (messages @ [u]) = format_history_for_api messages"
    using aux by (elim conjE)
  have "\<exists>js. sorted_wrt (<) js
          \<and> (\<forall>j\<in>set js. Suc j < length messages
                \<and> map_of (messages ! j) ''role'' = Some (PStr ''user'')
                \<and> map_of (messages ! Suc j) ''role'' = Some (PStr ''assistant''))
          \<and> format_history_for_api messages
              = map (\<lambda>j. [(''prompt'', content_of (messages ! j)),
                           (''response'', content_of (messages ! Suc j))]) js"
    using aux by (elim conjE)
  then obtain js where s: "sorted_wrt (<) js"
    and b: "\<forall>j\<in>set js. Suc j < length messages
                \<and> map_of (messages ! j) ''role'' = Some (PStr ''user'')
                \<and> map_of (messages ! Suc j) ''role'' = Some (PStr ''assistant'')"
    and e: "format_history_for_api messages
              = map (\<lambda>j. [(''prompt'', content_of (messages ! j)),
                           (''response'', content_of (messages ! Suc j))]) js"
    by blast
  have "map (\<lambda>j. [(''prompt'', content_of (messages ! j)),
                   (''response'', content_of (messages ! Suc j))]) js
      = map (\<lambda>j. [(''prompt'', the (map_of (messages ! j) ''content'')),
                   (''response'', the (map_of (messages ! Suc j) ''content''))]) js"
  proof (rule map_cong[OF refl])
    fix j assume "j \<in> set js"
    with b have "Suc j < length messages" by blast
    then have "is_turn (messages ! j)" "is_turn (messages ! Suc j)"
      using assms by simp_all
    then show "[(''prompt'', content_of (messages ! j)),
                (''response'', content_of (messages ! Suc j))]
        = [(''prompt'', the (map_of (messages ! j) ''content'')),
           (''response'', the (map_of (messages ! Suc j) ''content''))]"
      by (simp add: is_turn_content_of)
  qed
  with e have e': "format_history_for_api messages
      = map (\<lambda>j. [(''prompt'', the (map_of (messages ! j) ''content'')),
                   (''response'', the (map_of (messages ! Suc j) ''content''))]) js"
    by simp
  have c6: "\<exists>js. sorted_wrt (<) js
          \<and> (\<forall>j\<in>set js. Suc j < length messages
                \<and> map_of (messages ! j) ''role'' = Some (PStr ''user'')
                \<and> map_of (messages ! Suc j) ''role'' = Some (PStr ''assistant''))
          \<and> format_history_for_api messages
              = map (\<lambda>j. [(''prompt'', the (map_of (messages ! j) ''content'')),
                           (''response'', the (map_of (messages ! Suc j) ''content''))]) js"
    using s b e' by blast
  show ?thesis
    apply (intro conjI)
    subgoal by (rule c1)
    subgoal by (intro allI impI) (rule c2)
    subgoal by (rule c3)
    subgoal by (rule c4)
    subgoal by (rule c5)
    subgoal by (rule c6)
    done
qed

theorem format_history_scan_witness:
  "is_turn [(''role'', PStr ''user''), (''content'', PStr ''q1'')]
   \<and> is_turn [(''role'', PStr ''assistant''), (''content'', PStr ''a1'')]
   \<and> is_turn [(''role'', PStr ''user''), (''content'', PStr ''q2'')]
   \<and> format_history_for_api
        [[(''role'', PStr ''user''), (''content'', PStr ''q1'')],
         [(''role'', PStr ''assistant''), (''content'', PStr ''a1'')],
         [(''role'', PStr ''user''), (''content'', PStr ''q2'')]]
      = [[(''prompt'', PStr ''q1''), (''response'', PStr ''a1'')]]"
proof -
  let ?u = "[(''role'', PStr ''user''), (''content'', PStr ''q1'')]"
  let ?a = "[(''role'', PStr ''assistant''), (''content'', PStr ''a1'')]"
  let ?v = "[(''role'', PStr ''user''), (''content'', PStr ''q2'')]"
  have t: "\<forall>m\<in>set [?u, ?a, ?v]. is_turn m" by (simp add: is_turn_def)
  have tv: "\<forall>m\<in>set [?v]. is_turn m" by (simp add: is_turn_def)
  have te: "\<forall>m\<in>set ([]::pydict list). is_turn m" by simp
  from format_history_scan[OF te] have e0: "format_history_for_api [] = []" by simp
  from format_history_scan[OF tv] have
    "\<forall>u rest. [?v] = u # rest \<and> map_of u ''role'' = Some (PStr ''user'')
            \<and> (rest = [] \<or> map_of (hd rest) ''role'' \<noteq> Some (PStr ''assistant''))
          \<longrightarrow> format_history_for_api [?v] = format_history_for_api rest"
    by (elim conjE)
  then have "[?v] = ?v # [] \<and> map_of ?v ''role'' = Some (PStr ''user'')
            \<and> ([] = ([]::pydict list) \<or> map_of (hd []) ''role'' \<noteq> Some (PStr ''assistant''))
          \<longrightarrow> format_history_for_api [?v] = format_history_for_api []"
    by (elim allE)
  then have e1: "format_history_for_api [?v] = []" using e0 by simp
  from format_history_scan[OF t] have
    "\<forall>u a rest p r. [?u, ?a, ?v] = u # a # rest
            \<and> map_of u ''role'' = Some (PStr ''user'')
            \<and> map_of a ''role'' = Some (PStr ''assistant'')
            \<and> map_of u ''content'' = Some p \<and> map_of a ''content'' = Some r
          \<longrightarrow> format_history_for_api [?u, ?a, ?v]
              = [(''prompt'', p), (''response'', r)] # format_history_for_api rest"
    by (elim conjE)
  then have "[?u, ?a, ?v] = ?u # ?a # [?v]
            \<and> map_of ?u ''role'' = Some (PStr ''user'')
            \<and> map_of ?a ''role'' = Some (PStr ''assistant'')
            \<and> map_of ?u ''content'' = Some (PStr ''q1'')
            \<and> map_of ?a ''content'' = Some (PStr ''a1'')
          \<longrightarrow> format_history_for_api [?u, ?a, ?v]
              = [(''prompt'', PStr ''q1''), (''response'', PStr ''a1'')]
                  # format_history_for_api [?v]"
    by (elim allE)
  then have e: "format_history_for_api [?u, ?a, ?v]
      = [[(''prompt'', PStr ''q1''), (''response'', PStr ''a1'')]]"
    using e1 by simp
  show ?thesis using t e by simp
qed

section \<open>History store: the cap and the filter\<close>





lemma read_after_save_user_info:
  assumes "io = IoOk \<or> \<not> uses_mongodb st" and "truthy_dict info"
  shows "user_info (get_user_data (save_user_data st now io user_id hist conv_id info) IoOk user_id)
           = map_option serializable_user_info info"
  using assms
  by (auto simp: get_user_data_def save_user_data_def uses_mongodb_def Let_def
           split: option.splits io_outcome.splits bool.splits)



text \<open>
  Claim C9, as amended. The user info that a write stores is the given dictionary without
  the fields whose value is itself an object of another type than string, number, boolean,
  list, dictionary or \<^verbatim>\<open>None\<close>; a field is kept exactly when its value is of one of
  these types. The test does not look inside a list or a dictionary.
\<close>

theorem save_filters_user_info:
  assumes "io = IoOk \<or> \<not> uses_mongodb st" and "info \<noteq> []"
  shows "user_info (get_user_data
             (save_user_data st now io user_id hist conv_id (Some info)) IoOk user_id)
           = Some (filter (\<lambda>(k, v). isinstance_serializable v) info)
    \<and> (\<forall>(k, v) \<in> set (filter (\<lambda>(k, v). isinstance_serializable v) info).
          \<forall>cls. v \<noteq> PObj cls)
    \<and> (\<forall>(k, v) \<in> set info.
          (k, v) \<in> set (filter (\<lambda>(k, v). isinstance_serializable v) info)
            \<longleftrightarrow> (\<forall>cls. v \<noteq> PObj cls))"
proof -
  have t: "truthy_dict (Some info)" using assms(2) by (simp add: truthy_dict_def)
  have i: "isinstance_serializable v \<longleftrightarrow> (\<forall>cls. v \<noteq> PObj cls)" for v
    by (cases v) simp_all
  have a: "user_info (get_user_data
             (save_user_data st now io user_id hist conv_id (Some info)) IoOk user_id)
           = Some (filter (\<lambda>(k, v). isinstance_serializable v) info)"
    using read_after_save_user_info[OF assms(1) t] by (simp add: serializable_user_info_def)
  have b: "\<forall>(k, v) \<in> set (filter (\<lambda>(k, v). isinstance_serializable v) info).
          \<forall>cls. v \<noteq> PObj cls"
    using i by auto
  have c: "\<forall>(k, v) \<in> set info.
          (k, v) \<in> set (filter (\<lambda>(k, v). isinstance_serializable v) info)
            \<longleftrightarrow> (\<forall>cls. v \<noteq> PObj cls)"
    using i by auto
  show ?thesis by (intro conjI) (fact a, fact b, fact c)
qed

theorem save_filters_user_info_witness:
  "(IoOk = IoOk \<or> \<not> uses_mongodb \<lparr>STORAGE_TYPE = ''memory'', mongo_client = None,
        mongo_collection = None, in_memory_storage = Map.empty\<rparr>)
   \<and> [(''id'', PInt 7), (''guild'', PObj ''Guild''), (''name'', PStr ''ann'')] \<noteq> []
   \<and> user_info (get_user_data
        (save_user_data \<lparr>STORAGE_TYPE = ''memory'', mongo_client = None,
             mongo_collection = None, in_memory_storage = Map.empty\<rparr> 0 IoOk 7 [] PNone
           (Some [(''id'', PInt 7), (''guild'', PObj ''Guild''), (''name'', PStr ''ann'')]))
        IoOk 7)
     = Some [(''id'', PInt 7), (''name'', PStr ''ann'')]"
proof -
  let ?st = "\<lparr>STORAGE_TYPE = ''memory'', mongo_client = None,
             mongo_collection = None, in_memory_storage = Map.empty\<rparr>"
  let ?i = "[(''id'', PInt 7), (''guild'', PObj ''Guild''), (''name'', PStr ''ann'')]"
  have a: "IoOk = IoOk \<or> \<not> uses_mongodb ?st" by simp
  have b: "?i \<noteq> []" by simp
  from save_filters_user_info[OF a b, of 0 7 "[]" PNone]
  have "user_info (get_user_data (save_user_data ?st 0 IoOk 7 [] PNone (Some ?i)) IoOk 7)
      = Some (filter (\<lambda>(k, v). isinstance_serializable v) ?i)"
    by (rule conjunct1)
  also have "filter (\<lambda>(k, v). isinstance_serializable v) ?i
      = [(''id'', PInt 7), (''name'', PStr ''ann'')]"
    by simp
  finally show ?thesis using a b by blast
qed

text \<open>
  Claim C9 as stated fails: an object inside a list passes the test and is stored.
\<close>

theorem nested_object_is_stored:
  "user_info (get_user_data
        (save_user_data \<lparr>STORAGE_TYPE = ''memory'', mongo_client = None,
             mongo_collection = None, in_memory_storage = Map.empty\<rparr> 0 IoOk 7 [] PNone
           (Some [(''roles'', PList [PObj ''Role''])]))
        IoOk 7)
     = Some [(''roles'', PList [PObj ''Role''])]
   \<and> \<not> deep_serializable (PList [PObj ''Role''])"
  by (simp add: get_user_data_def save_user_data_def Let_def truthy_dict_def
        serializable_user_info_def)

section \<open>Storage initialisation\<close>

text \<open>
  Claim C3, as amended. With the storage type \<^verbatim>\<open>mongodb\<close> and no connection string,
  \<^verbatim>\<open>initialize_storage\<close> logs the configuration error and leaves the process with
  exit status 1, whatever a connection attempt would have done.
\<close>

theorem initialize_without_uri_exits:
  assumes "STORAGE_TYPE st = ''mongodb''" and "\<not> truthy_str (MONGODB_URI cfg)"
  shows "initialize_storage cfg conn st
           = ([(ERROR, ''STORAGE_TYPE is 'mongodb' but MONGODB_URI is not set. Exiting.'')],
              Inl (SystemExit 1))"
  using assms by (simp add: initialize_storage_def)

theorem initialize_without_uri_exits_witness:
  "STORAGE_TYPE \<lparr>STORAGE_TYPE = ''mongodb'', mongo_client = None, mongo_collection = None,
        in_memory_storage = Map.empty\<rparr> = ''mongodb''
   \<and> \<not> truthy_str (MONGODB_URI \<lparr>MONGODB_URI = None, MONGODB_DB_NAME = ''discord_bot_memory'',
        MONGODB_COLLECTION_NAME = ''chat_histories'', API_URL = ''u'', API_KEY = None\<rparr>)
   \<and> initialize_storage
        \<lparr>MONGODB_URI = None, MONGODB_DB_NAME = ''discord_bot_memory'',
          MONGODB_COLLECTION_NAME = ''chat_histories'', API_URL = ''u'', API_KEY = None\<rparr>
        (ConnectFailed ''unreachable'')
        \<lparr>STORAGE_TYPE = ''mongodb'', mongo_client = None, mongo_collection = None,
          in_memory_storage = Map.empty\<rparr>
      = ([(ERROR, ''STORAGE_TYPE is 'mongodb' but MONGODB_URI is not set. Exiting.'')],
         Inl (SystemExit 1))"
proof -
  let ?st = "\<lparr>STORAGE_TYPE = ''mongodb'', mongo_client = None, mongo_collection = None,
          in_memory_storage = Map.empty\<rparr>"
  let ?cfg = "\<lparr>MONGODB_URI = None, MONGODB_DB_NAME = ''discord_bot_memory'',
          MONGODB_COLLECTION_NAME = ''chat_histories'', API_URL = ''u'', API_KEY = None\<rparr>"
  have a: "STORAGE_TYPE ?st = ''mongodb''" by simp
  have b: "\<not> truthy_str (MONGODB_URI ?cfg)" by (simp add: truthy_str_def)
  from initialize_without_uri_exits[OF a b, of "ConnectFailed ''unreachable''"] a b
  show ?thesis by blast
qed

text \<open>
  Claim C3 as stated fails: the result is the exit, not a store in memory.
\<close>

theorem initialize_without_uri_no_fallback:
  "snd (initialize_storage
        \<lparr>MONGODB_URI = None, MONGODB_DB_NAME = ''discord_bot_memory'',
          MONGODB_COLLECTION_NAME = ''chat_histories'', API_URL = ''u'', API_KEY = None\<rparr>
        (ConnectFailed ''unreachable'')
        \<lparr>STORAGE_TYPE = ''mongodb'', mongo_client = None, mongo_collection = None,
          in_memory_storage = Map.empty\<rparr>)
     = Inl (SystemExit 1)"
  by (simp add: initialize_storage_def truthy_str_def)

section \<open>Answer client\<close>

text \<open>
  Claim C4. Without an API key (none, or the empty string) \<^verbatim>\<open>generate_answer\<close> returns
  the configuration-error answer with the conversation id it was given, and sends no request.
\<close>

theorem no_api_key_no_request:
  assumes "\<not> truthy_str (API_KEY cfg)"
  shows "generate_answer cfg json_dumps post q messages conv_id
           = (Inr \<lparr>answer = PStr ''Error: Backend API key is not configured.'',
                    new_conversation_id = conv_id\<rparr>, [])"
  using assms by (simp add: generate_answer_def)

theorem no_api_key_no_request_witness:
  "\<not> truthy_str (API_KEY \<lparr>MONGODB_URI = None, MONGODB_DB_NAME = ''d'',
        MONGODB_COLLECTION_NAME = ''c'', API_URL = ''u'', API_KEY = Some []\<rparr>)
   \<and> generate_answer
        \<lparr>MONGODB_URI = None, MONGODB_DB_NAME = ''d'', MONGODB_COLLECTION_NAME = ''c'',
          API_URL = ''u'', API_KEY = Some []\<rparr>
        (\<lambda>h. None) (\<lambda>r. PostRaises ClientConnectorError) ''hello'' [] (PStr ''c1'')
      = (Inr \<lparr>answer = PStr ''Error: Backend API key is not configured.'',
               new_conversation_id = PStr ''c1''\<rparr>, [])"
proof -
  let ?cfg = "\<lparr>MONGODB_URI = None, MONGODB_DB_NAME = ''d'', MONGODB_COLLECTION_NAME = ''c'',
          API_URL = ''u'', API_KEY = Some []\<rparr>"
  have a: "\<not> truthy_str (API_KEY ?cfg)" by (simp add: truthy_str_def)
  from no_api_key_no_request[OF a, of "\<lambda>h. None" "\<lambda>r. PostRaises ClientConnectorError"
      "''hello''" "[]" "PStr ''c1''"] a
  show ?thesis by blast
qed

lemma str_of_int_201: "str_of_int 201 = ''201''"
  by code_simp

text \<open>
  Claim C5 fails on the code. A response with status 500 whose body is the JSON list
  \<^verbatim>\<open>[]\<close>: \<^verbatim>\<open>error_body.get\<close> raises \<^verbatim>\<open>AttributeError\<close>, which the inner handler does
  not catch, and the answer is the one for an unexpected error, without the status code.
\<close>

theorem status_500_json_list_hides_status:
  "fst (generate_answer
        \<lparr>MONGODB_URI = None, MONGODB_DB_NAME = ''d'', MONGODB_COLLECTION_NAME = ''c'',
          API_URL = ''u'', API_KEY = Some ''k''\<rparr>
        (\<lambda>h. Some ''[]'')
        (\<lambda>r. Response \<lparr>status = 500, json_result = Inr (PList []), text_result = Inr ''[]''\<rparr>)
        ''hello'' [] (PStr ''c1''))
     = Inr \<lparr>answer = PStr ''Sorry, I couldn't get an answer from the backend service. (Unexpected Error)'',
             new_conversation_id = PStr ''c1''\<rparr>"
  by (simp add: generate_answer_def truthy_str_def process_response_def failure_def
        default_error_msg_def Let_def)

text \<open>
  Claim C6, as amended. For a response with status 200 on which \<^verbatim>\<open>resp.json()\<close> returns
  a JSON object (the content type is JSON and the body is a well-formed object),
  \<^verbatim>\<open>generate_answer\<close> returns the object's \<^verbatim>\<open>answer\<close> (the generic failure text when
  the key is missing) and its \<^verbatim>\<open>conversation_id\<close> (the given one when the key is
  missing).
\<close>

theorem status_200_answer:
  assumes "truthy_str (API_KEY cfg)" and "status resp = 200"
    and "json_result resp = Inr (PDict d)"
  shows "fst (generate_answer cfg json_dumps (\<lambda>r. Response resp) q messages conv_id)
           = Inr \<lparr>answer = (case map_of d ''answer'' of
                               Some a \<Rightarrow> a | None \<Rightarrow> PStr default_error_msg),
                   new_conversation_id = (case map_of d ''conversation_id'' of
                               Some c \<Rightarrow> c | None \<Rightarrow> conv_id)\<rparr>"
  using assms by (simp add: generate_answer_def process_response_def dict_get_def Let_def)

theorem status_200_answer_witness:
  "truthy_str (API_KEY \<lparr>MONGODB_URI = None, MONGODB_DB_NAME = ''d'',
        MONGODB_COLLECTION_NAME = ''c'', API_URL = ''u'', API_KEY = Some ''k''\<rparr>)
   \<and> status \<lparr>status = 200, json_result = Inr (PDict [(''answer'', PStr ''hi''),
          (''conversation_id'', PStr ''c2'')]), text_result = Inr ''t''\<rparr> = 200
   \<and> fst (generate_answer
        \<lparr>MONGODB_URI = None, MONGODB_DB_NAME = ''d'', MONGODB_COLLECTION_NAME = ''c'',
          API_URL = ''u'', API_KEY = Some ''k''\<rparr>
        (\<lambda>h. Some ''[]'')
        (\<lambda>r. Response \<lparr>status = 200, json_result = Inr (PDict [(''answer'', PStr ''hi''),
          (''conversation_id'', PStr ''c2'')]), text_result = Inr ''t''\<rparr>)
        ''hello'' [] (PStr ''c1''))
     = Inr \<lparr>answer = PStr ''hi'', new_conversation_id = PStr ''c2''\<rparr>"
proof -
  let ?cfg = "\<lparr>MONGODB_URI = None, MONGODB_DB_NAME = ''d'', MONGODB_COLLECTION_NAME = ''c'',
          API_URL = ''u'', API_KEY = Some ''k''\<rparr>"
  let ?d = "[(''answer'', PStr ''hi''), (''conversation_id'', PStr ''c2'')]"
  let ?resp = "\<lparr>status = 200, json_result = Inr (PDict ?d), text_result = Inr ''t''\<rparr>"
  have a: "truthy_str (API_KEY ?cfg)" by (simp add: truthy_str_def)
  have b: "status ?resp = 200" by simp
  have c: "json_result ?resp = Inr (PDict ?d)" by simp
  from status_200_answer[OF a b c, of "\<lambda>h. Some ''[]''" "''hello''" "[]" "PStr ''c1''"]
  have "fst (generate_answer ?cfg (\<lambda>h. Some ''[]'') (\<lambda>r. Response ?resp) ''hello'' []
          (PStr ''c1''))
      = Inr \<lparr>answer = PStr ''hi'', new_conversation_id = PStr ''c2''\<rparr>"
    by simp
  with a b show ?thesis by blast
qed

text \<open>
  Claim C6 as stated fails twice. Status 201 is a 2xx status, and the answer is a failure.
  And with status 200, a body that is a JSON object with the key \<^verbatim>\<open>answer\<close>, sent
  with a content type other than JSON, makes \<^verbatim>\<open>resp.json()\<close> raise \<^verbatim>\<open>ContentTypeError\<close>, and
  the answer is the one for a client error.
\<close>

theorem status_201_or_text_plain_is_failure:
  "fst (generate_answer
        \<lparr>MONGODB_URI = None, MONGODB_DB_NAME = ''d'', MONGODB_COLLECTION_NAME = ''c'',
          API_URL = ''u'', API_KEY = Some ''k''\<rparr>
        (\<lambda>h. Some ''[]'')
        (\<lambda>r. Response \<lparr>status = 201, json_result = Inr (PDict [(''answer'', PStr ''hi''),
          (''conversation_id'', PStr ''c2'')]), text_result = Inr ''t''\<rparr>)
        ''hello'' [] (PStr ''c1''))
     = Inr \<lparr>answer = PStr ''Sorry, I couldn't get an answer from the backend service. (Error: 201)'',
             new_conversation_id = PStr ''c1''\<rparr>
   \<and> fst (generate_answer
        \<lparr>MONGODB_URI = None, MONGODB_DB_NAME = ''d'', MONGODB_COLLECTION_NAME = ''c'',
          API_URL = ''u'', API_KEY = Some ''k''\<rparr>
        (\<lambda>h. Some ''[]'')
        (\<lambda>r. Response \<lparr>status = 200, json_result = Inl ContentTypeError,
           text_result = Inr (''{'' @ [CHR 0x22] @ ''answer'' @ [CHR 0x22] @ '': 1}'')\<rparr>)
        ''hello'' [] (PStr ''c1''))
     = Inr \<lparr>answer = PStr ''Sorry, I couldn't get an answer from the backend service. (Client Error)'',
             new_conversation_id = PStr ''c1''\<rparr>"
  by (simp add: generate_answer_def truthy_str_def process_response_def status_answer_def
        failure_def default_error_msg_def str_of_int_201 Let_def)

lemma status_answer_failure:
  "status_answer resp conv_id = failure (''Error: '' @ str_of_int (status resp)) conv_id"
  by (simp add: status_answer_def failure_def)

lemma handle_exn_result:
  "handle_exn r conv_id e = Inr doc \<Longrightarrow> \<exists>category. doc = failure category conv_id"
  by (cases e) (auto split: option.splits sum.splits)

lemma handle_exn_returns:
  assumes "text_result resp = Inr t"
  shows "\<exists>category. handle_exn (Some resp) conv_id e = Inr (failure category conv_id)
    \<and> (e = JSONDecodeError \<longrightarrow> category = ''Invalid Response Format'')"
  using assms by (cases e) auto

lemma process_response_unparsable:
  assumes "\<forall>d. json_result resp \<noteq> Inr (PDict d)"
    and "process_response resp conv_id = Inr doc"
  shows "doc = status_answer resp conv_id"
proof (cases "json_result resp")
  case (Inl e)
  with assms(2) show ?thesis
    by (auto simp: process_response_def inner_handler_def split: if_splits sum.splits)
next
  case (Inr v)
  with assms(1) have "\<forall>d. v \<noteq> PDict d" by simp
  with Inr assms(2) show ?thesis
    by (cases v) (auto simp: process_response_def split: if_splits)
qed

lemma process_response_200_undecodable:
  assumes "status resp = 200" and "json_result resp = Inl JSONDecodeError"
  shows "process_response resp conv_id = Inl JSONDecodeError"
  using assms by (simp add: process_response_def)

lemma generate_answer_response:
  assumes "truthy_str (API_KEY cfg)"
  shows "fst (generate_answer cfg json_dumps (\<lambda>r. Response resp) q messages conv_id)
    = (case process_response resp conv_id of
        Inl e \<Rightarrow> handle_exn (Some resp) conv_id e
      | Inr doc \<Rightarrow> Inr doc)"
  using assms by (simp add: generate_answer_def Let_def)

text \<open>
  Claim C7, as amended. Take a response on which \<^verbatim>\<open>resp.json()\<close> raises or returns a
  value that is not a JSON object, whatever its status. Every result that
  \<^verbatim>\<open>generate_answer\<close> returns has the conversation id it was given. When the text of the
  response can be read, it does return, and the answer is the generic failure text followed
  by a category in parentheses; the category is the invalid response format when the status
  is 200 and \<^verbatim>\<open>resp.json()\<close> raises a JSON decode error.
\<close>

theorem unparsable_body_failure:
  assumes "truthy_str (API_KEY cfg)" and "\<forall>d. json_result resp \<noteq> Inr (PDict d)"
  shows "(\<forall>doc. fst (generate_answer cfg json_dumps (\<lambda>r. Response resp) q messages conv_id)
              = Inr doc
            \<longrightarrow> new_conversation_id doc = conv_id)
    \<and> (\<forall>t. text_result resp = Inr t
          \<longrightarrow> (\<exists>category.
                fst (generate_answer cfg json_dumps (\<lambda>r. Response resp) q messages conv_id)
                  = Inr \<lparr>answer = PStr (default_error_msg @ '' ('' @ category @ '')''),
                         new_conversation_id = conv_id\<rparr>
                \<and> (status resp = 200 \<and> json_result resp = Inl JSONDecodeError
                      \<longrightarrow> category = ''Invalid Response Format'')))"
proof (intro conjI allI impI)
  let ?g = "fst (generate_answer cfg json_dumps (\<lambda>r. Response resp) q messages conv_id)"
  note g = generate_answer_response[OF assms(1), of json_dumps resp q messages conv_id]
  fix doc assume r: "?g = Inr doc"
  show "new_conversation_id doc = conv_id"
  proof (cases "process_response resp conv_id")
    case (Inl e)
    with r g have "handle_exn (Some resp) conv_id e = Inr doc" by simp
    from handle_exn_result[OF this] show ?thesis by (auto simp: failure_def)
  next
    case (Inr d)
    with r g have "d = doc" by simp
    with Inr process_response_unparsable[OF assms(2), of conv_id doc]
    show ?thesis by (simp add: status_answer_def)
  qed
next
  let ?g = "fst (generate_answer cfg json_dumps (\<lambda>r. Response resp) q messages conv_id)"
  note g = generate_answer_response[OF assms(1), of json_dumps resp q messages conv_id]
  fix t assume t: "text_result resp = Inr t"
  show "\<exists>category. ?g = Inr \<lparr>answer = PStr (default_error_msg @ '' ('' @ category @ '')''),
                         new_conversation_id = conv_id\<rparr>
                \<and> (status resp = 200 \<and> json_result resp = Inl JSONDecodeError
                      \<longrightarrow> category = ''Invalid Response Format'')"
  proof (cases "process_response resp conv_id")
    case (Inl e)
    from handle_exn_returns[OF t, of conv_id e] obtain category where
      h: "handle_exn (Some resp) conv_id e = Inr (failure category conv_id)"
      and c: "e = JSONDecodeError \<longrightarrow> category = ''Invalid Response Format''"
      by blast
    have "?g = Inr \<lparr>answer = PStr (default_error_msg @ '' ('' @ category @ '')''),
                         new_conversation_id = conv_id\<rparr>"
      using g Inl h by (simp add: failure_def)
    moreover have "status resp = 200 \<and> json_result resp = Inl JSONDecodeError
        \<longrightarrow> category = ''Invalid Response Format''"
    proof
      assume "status resp = 200 \<and> json_result resp = Inl JSONDecodeError"
      then have "process_response resp conv_id = Inl JSONDecodeError"
        by (simp add: process_response_200_undecodable)
      with Inl c show "category = ''Invalid Response Format''" by simp
    qed
    ultimately show ?thesis by blast
  next
    case (Inr d)
    from process_response_unparsable[OF assms(2) Inr]
    have d: "d = failure (''Error: '' @ str_of_int (status resp)) conv_id"
      by (simp add: status_answer_failure)
    have "?g = Inr \<lparr>answer = PStr (default_error_msg @ '' (''
                        @ (''Error: '' @ str_of_int (status resp)) @ '')''),
                   new_conversation_id = conv_id\<rparr>"
      using g Inr d by (simp add: failure_def)
    moreover have "\<not> (status resp = 200 \<and> json_result resp = Inl JSONDecodeError)"
      using Inr by (auto simp: process_response_def)
    ultimately show ?thesis by blast
  qed
qed

theorem unparsable_body_failure_witness:
  "truthy_str (API_KEY \<lparr>MONGODB_URI = None, MONGODB_DB_NAME = ''d'',
        MONGODB_COLLECTION_NAME = ''c'', API_URL = ''u'', API_KEY = Some ''k''\<rparr>)
   \<and> status \<lparr>status = 200, json_result = Inl JSONDecodeError, text_result = Inr ''<html>''\<rparr>
       = 200
   \<and> fst (generate_answer
        \<lparr>MONGODB_URI = None, MONGODB_DB_NAME = ''d'', MONGODB_COLLECTION_NAME = ''c'',
          API_URL = ''u'', API_KEY = Some ''k''\<rparr>
        (\<lambda>h. Some ''[]'')
        (\<lambda>r. Response \<lparr>status = 200, json_result = Inl JSONDecodeError,
                         text_result = Inr ''<html>''\<rparr>)
        ''hello'' [] (PStr ''c1''))
     = Inr \<lparr>answer = PStr ''Sorry, I couldn't get an answer from the backend service. (Invalid Response Format)'',
             new_conversation_id = PStr ''c1''\<rparr>"
proof -
  let ?cfg = "\<lparr>MONGODB_URI = None, MONGODB_DB_NAME = ''d'', MONGODB_COLLECTION_NAME = ''c'',
          API_URL = ''u'', API_KEY = Some ''k''\<rparr>"
  let ?resp = "\<lparr>status = 200, json_result = Inl JSONDecodeError, text_result = Inr ''<html>''\<rparr>"
  let ?g = "fst (generate_answer ?cfg (\<lambda>h. Some ''[]'') (\<lambda>r. Response ?resp) ''hello'' []
              (PStr ''c1''))"
  have a: "truthy_str (API_KEY ?cfg)" by (simp add: truthy_str_def)
  have b: "\<forall>d. json_result ?resp \<noteq> Inr (PDict d)" by simp
  have c: "status ?resp = 200" by simp
  have "\<forall>t. text_result ?resp = Inr t
          \<longrightarrow> (\<exists>category. ?g
                  = Inr \<lparr>answer = PStr (default_error_msg @ '' ('' @ category @ '')''),
                         new_conversation_id = PStr ''c1''\<rparr>
                \<and> (status ?resp = 200 \<and> json_result ?resp = Inl JSONDecodeError
                      \<longrightarrow> category = ''Invalid Response Format''))"
    using unparsable_body_failure[OF a b, of "\<lambda>h. Some ''[]''" "''hello''" "[]" "PStr ''c1''"]
    by (elim conjE)
  then have "\<exists>category. ?g
                  = Inr \<lparr>answer = PStr (default_error_msg @ '' ('' @ category @ '')''),
                         new_conversation_id = PStr ''c1''\<rparr>
                \<and> (status ?resp = 200 \<and> json_result ?resp = Inl JSONDecodeError
                      \<longrightarrow> category = ''Invalid Response Format'')"
    by simp
  then have "?g = Inr \<lparr>answer = PStr (default_error_msg @ '' (Invalid Response Format)''),
                         new_conversation_id = PStr ''c1''\<rparr>"
    by auto
  then have "?g = Inr \<lparr>answer = PStr ''Sorry, I couldn't get an answer from the backend service. (Invalid Response Format)'',
             new_conversation_id = PStr ''c1''\<rparr>"
    by (simp add: default_error_msg_def)
  with a c show ?thesis by blast
qed

text \<open>
  Claim C7 as stated fails: with status 201 the answer names the status, and with status 200
  and a JSON list as body it is the answer for an unexpected error.
\<close>

theorem unparsable_body_other_answers:
  "fst (generate_answer
        \<lparr>MONGODB_URI = None, MONGODB_DB_NAME = ''d'', MONGODB_COLLECTION_NAME = ''c'',
          API_URL = ''u'', API_KEY = Some ''k''\<rparr>
        (\<lambda>h. Some ''[]'')
        (\<lambda>r. Response \<lparr>status = 201, json_result = Inl JSONDecodeError,
                         text_result = Inr ''<html>''\<rparr>)
        ''hello'' [] (PStr ''c1''))
     = Inr \<lparr>answer = PStr ''Sorry, I couldn't get an answer from the backend service. (Error: 201)'',
             new_conversation_id = PStr ''c1''\<rparr>
   \<and> fst (generate_answer
        \<lparr>MONGODB_URI = None, MONGODB_DB_NAME = ''d'', MONGODB_COLLECTION_NAME = ''c'',
          API_URL = ''u'', API_KEY = Some ''k''\<rparr>
        (\<lambda>h. Some ''[]'')
        (\<lambda>r. Response \<lparr>status = 200, json_result = Inr (PList [PInt 1]),
                         text_result = Inr ''[1]''\<rparr>)
        ''hello'' [] (PStr ''c1''))
     = Inr \<lparr>answer = PStr ''Sorry, I couldn't get an answer from the backend service. (Unexpected Error)'',
             new_conversation_id = PStr ''c1''\<rparr>"
  by (simp add: generate_answer_def truthy_str_def process_response_def status_answer_def
        inner_handler_def caught_inside_def failure_def default_error_msg_def str_of_int_201 Let_def)


section \<open>Chunking\<close>

subsection \<open>The split point\<close>

lemma slice_bound_nonneg: "0 \<le> k \<Longrightarrow> slice_bound k n = min (nat k) n"
  by (simp add: slice_bound_def)

lemma filter_rev_upt_Nil: "(filter P (rev [0..<e]) = []) = (\<forall>i<e. \<not> P i)"
  by (auto simp: filter_empty_conv)

lemma filter_rev_upt_Cons:
  "filter P (rev [0..<e]) = i # r \<Longrightarrow> i < e \<and> P i \<and> (\<forall>j. i < j \<and> j < e \<longrightarrow> \<not> P j)"
proof (induction e arbitrary: r)
  case 0
  then show ?case by simp
next
  case (Suc e)
  show ?case
  proof (cases "P e")
    case True
    with Suc.prems have "i = e" by simp
    with True show ?thesis by auto
  next
    case False
    with Suc.prems have "filter P (rev [0..<e]) = i # r" by simp
    from Suc.IH[OF this] False show ?thesis
      by (auto simp: less_Suc_eq)
  qed
qed

lemma rindex_None_iff:
  assumes "0 \<le> m"
  shows "rindex text c 0 m = None \<longleftrightarrow> (\<forall>i < min (nat m) (length text). text ! i \<noteq> c)"
proof -
  have "rindex text c 0 m = None
      \<longleftrightarrow> filter (\<lambda>i. text ! i = c) (rev [0..<min (nat m) (length text)]) = []"
    using assms by (simp add: rindex_def slice_bound_def Let_def split: list.splits)
  then show ?thesis by (simp only: filter_rev_upt_Nil)
qed

lemma rindex_SomeD:
  assumes "0 \<le> m" and "rindex text c 0 m = Some i"
  shows "i < min (nat m) (length text) \<and> text ! i = c
    \<and> (\<forall>j. i < j \<and> j < min (nat m) (length text) \<longrightarrow> text ! j \<noteq> c)"
proof -
  from assms obtain r where
    "filter (\<lambda>i. text ! i = c) (rev [0..<min (nat m) (length text)]) = i # r"
    by (auto simp: rindex_def slice_bound_def Let_def split: list.splits)
  from filter_rev_upt_Cons[OF this] show ?thesis by simp
qed


lemma Max_break_eqI:
  assumes "k < limit" "k < length text" "is_break (text ! k)"
    and "\<And>j. k < j \<Longrightarrow> j < limit \<Longrightarrow> j < length text \<Longrightarrow> \<not> is_break (text ! j)"
  shows "split_point text limit = k"
proof -
  let ?B = "{i. i < limit \<and> i < length text \<and> is_break (text ! i)}"
  have fin: "finite ?B" by simp
  have mem: "k \<in> ?B" using assms(1-3) by simp
  have ub: "b \<le> k" if "b \<in> ?B" for b
  proof (rule ccontr)
    assume "\<not> b \<le> k"
    then have "k < b" by simp
    with that assms(4)[of b] show False by simp
  qed
  have "Max ?B = k" by (rule Max_eqI) (fact fin, erule ub, fact mem)
  moreover have "\<exists>i<limit. i < length text \<and> is_break (text ! i)"
    using assms(1-3) by blast
  ultimately show ?thesis by (simp add: split_point_def)
qed

lemma split_point_no_break:
  assumes "\<And>i. i < limit \<Longrightarrow> i < length text \<Longrightarrow> \<not> is_break (text ! i)"
  shows "split_point text limit = limit"
  using assms by (auto simp: split_point_def)

lemma find_split_eq:
  assumes "0 \<le> m"
  shows "find_split text m = int (split_point text (nat m))"
proof -
  let ?e = "min (nat m) (length text)"
  let ?a = "rindex text NEWLINE 0 m"
  let ?b = "rindex text SPACE 0 m"
  have fs: "find_split text m =
      (let s = (case ?b of Some idx \<Rightarrow> max (case ?a of Some idx \<Rightarrow> max (- 1) (int idx)
                                                | None \<Rightarrow> - 1) (int idx)
                | None \<Rightarrow> (case ?a of Some idx \<Rightarrow> max (- 1) (int idx) | None \<Rightarrow> - 1))
       in if s = - 1 then m else s)"
    by (simp add: find_split_def)
  show ?thesis
  proof (cases ?a)
    case aN: None
    then have na: "\<And>i. i < ?e \<Longrightarrow> text ! i \<noteq> NEWLINE"
      using rindex_None_iff[OF assms, of "text" NEWLINE] by simp
    show ?thesis
    proof (cases ?b)
      case bN: None
      then have nb: "\<And>i. i < ?e \<Longrightarrow> text ! i \<noteq> SPACE"
        using rindex_None_iff[OF assms, of "text" SPACE] by simp
      have "split_point text (nat m) = nat m"
        using na nb by (intro split_point_no_break) (simp add: is_break_def)
      then show ?thesis using aN bN assms by (simp add: fs)
    next
      case bS: (Some q)
      note B = rindex_SomeD[OF assms bS]
      have "split_point text (nat m) = q"
      proof (rule Max_break_eqI)
        show "q < nat m" "q < length text" "is_break (text ! q)"
          using B by (simp_all add: is_break_def)
        fix j assume "q < j" "j < nat m" "j < length text"
        then show "\<not> is_break (text ! j)" using B na[of j] by (simp add: is_break_def)
      qed
      then show ?thesis using aN bS by (simp add: fs max_def)
    qed
  next
    case aS: (Some p)
    note A = rindex_SomeD[OF assms aS]
    show ?thesis
    proof (cases ?b)
      case bN: None
      then have nb: "\<And>i. i < ?e \<Longrightarrow> text ! i \<noteq> SPACE"
        using rindex_None_iff[OF assms, of "text" SPACE] by simp
      have "split_point text (nat m) = p"
      proof (rule Max_break_eqI)
        show "p < nat m" "p < length text" "is_break (text ! p)"
          using A by (simp_all add: is_break_def)
        fix j assume "p < j" "j < nat m" "j < length text"
        then show "\<not> is_break (text ! j)" using A nb[of j] by (simp add: is_break_def)
      qed
      then show ?thesis using aS bN by (simp add: fs max_def)
    next
      case bS: (Some q)
      note B = rindex_SomeD[OF assms bS]
      have "split_point text (nat m) = max p q"
      proof (rule Max_break_eqI)
        show "max p q < nat m" "max p q < length text" "is_break (text ! max p q)"
          using A B by (simp_all add: is_break_def max_def)
        fix j assume "max p q < j" "j < nat m" "j < length text"
        then show "\<not> is_break (text ! j)" using A B by (simp add: is_break_def)
      qed
      then show ?thesis using aS bS by (simp add: fs max_def)
    qed
  qed
qed

lemma split_point_le: "split_point text limit \<le> limit"
proof (cases "\<exists>i<limit. i < length text \<and> is_break (text ! i)")
  case True
  let ?B = "{i. i < limit \<and> i < length text \<and> is_break (text ! i)}"
  have "finite ?B" by simp
  moreover have "?B \<noteq> {}" using True by blast
  ultimately have "Max ?B \<in> ?B" by (rule Max_in)
  then show ?thesis using True by (simp add: split_point_def)
next
  case False
  have "split_point text limit = limit"
    unfolding split_point_def using False by (rule if_not_P)
  then show ?thesis by simp
qed

lemma split_point_zero_break:
  assumes "0 < limit" and "split_point text limit = 0"
  shows "text \<noteq> [] \<and> is_break (text ! 0)"
proof (cases "\<exists>i<limit. i < length text \<and> is_break (text ! i)")
  case True
  let ?B = "{i. i < limit \<and> i < length text \<and> is_break (text ! i)}"
  have "finite ?B" by simp
  moreover have "?B \<noteq> {}" using True by blast
  ultimately have "Max ?B \<in> ?B" by (rule Max_in)
  then have "0 \<in> ?B" using True assms(2) by (simp add: split_point_def)
  then show ?thesis by auto
next
  case False
  have "split_point text limit = limit"
    unfolding split_point_def using False by (rule if_not_P)
  then show ?thesis using assms by simp
qed

lemma is_break_isspace: "is_break c \<Longrightarrow> isspace c"
  by (auto simp: is_break_def isspace_def NEWLINE_def SPACE_def)

lemma length_lstrip_le: "length (lstrip text) \<le> length text"
  by (simp add: lstrip_def length_dropWhile_le)

lemma lstrip_progress:
  assumes "0 < limit" and "limit < length text"
  shows "length (lstrip (drop (split_point text limit) text)) < length text"
proof (cases "split_point text limit = 0")
  case True
  from split_point_zero_break[OF assms(1) True] obtain x xs where
    t: "text = x # xs" and "is_break x"
    by (cases "text") auto
  then have "isspace x" by (simp add: is_break_isspace)
  then have "lstrip text = lstrip xs" using t by (simp add: lstrip_def)
  then have "length (lstrip text) \<le> length xs" by (simp add: length_lstrip_le)
  then show ?thesis using True t by simp
next
  case False
  have "length (lstrip (drop (split_point text limit) text))
      \<le> length (drop (split_point text limit) text)"
    by (rule length_lstrip_le)
  also have "\<dots> < length text" using False assms(2) by simp
  finally show ?thesis .
qed

subsection \<open>The loop returns, for a limit of at least 1\<close>

lemma chunk_loop_short:
  "int (length s) \<le> m \<Longrightarrow> chunk_loop s m acc = Some (if s \<noteq> [] then acc @ [s] else acc)"
  by (subst chunk_loop.simps) simp

lemma chunk_loop_long:
  assumes "0 \<le> m" and "m < int (length s)"
  shows "chunk_loop s m acc
    = chunk_loop (lstrip (drop (split_point s (nat m)) s)) m
        (acc @ [take (split_point s (nat m)) s])"
proof -
  have "split_point s (nat m) \<le> nat m" by (rule split_point_le)
  then have k: "min (split_point s (nat m)) (length s) = split_point s (nat m)"
    using assms by simp
  show ?thesis
    using assms
    by (subst chunk_loop.simps)
       (simp add: find_split_eq slice_from_def slice_to_def slice_bound_nonneg k Let_def)
qed

lemma chunk_loop_total:
  assumes "1 \<le> m"
  shows "\<exists>cs. (\<forall>acc. chunk_loop s m acc = Some (acc @ cs))
    \<and> (\<forall>c\<in>set cs. int (length c) \<le> m)
    \<and> (\<exists>ws. length ws = length cs \<and> (\<forall>w\<in>set ws. \<forall>x\<in>set w. isspace x)
          \<and> s = concat (map2 (@) cs ws))"
proof (induction "length s" arbitrary: s rule: less_induct)
  case less
  show ?case
  proof (cases "int (length s) \<le> m")
    case True
    show ?thesis
    proof (cases "s = []")
      case True
      have "\<forall>acc. chunk_loop s m acc = Some (acc @ [])"
        using True assms by (simp add: chunk_loop_short)
      moreover have "length ([]::pystr list) = length ([]::pystr list)
          \<and> (\<forall>w\<in>set ([]::pystr list). \<forall>x\<in>set w. isspace x)
          \<and> s = concat (map2 (@) [] ([]::pystr list))"
        using True by simp
      ultimately show ?thesis by (intro exI[of _ "[]"]) auto
    next
      case False
      have "\<forall>acc. chunk_loop s m acc = Some (acc @ [s])"
        using False True by (simp add: chunk_loop_short)
      moreover have "\<forall>c\<in>set [s]. int (length c) \<le> m" using True by simp
      moreover have "length [[]::pystr] = length [s]
          \<and> (\<forall>w\<in>set [[]::pystr]. \<forall>x\<in>set w. isspace x)
          \<and> s = concat (map2 (@) [s] [[]])"
        by simp
      ultimately show ?thesis by (intro exI[of _ "[s]"]) blast
    qed
  next
    case False
    define k where "k = split_point s (nat m)"
    define s' where "s' = lstrip (drop k s)"
    define w where "w = takeWhile isspace (drop k s)"
    have lt: "m < int (length s)" using False by simp
    have m0: "0 \<le> m" using assms by simp
    have kle: "k \<le> nat m" unfolding k_def by (rule split_point_le)
    have "length s' < length s"
      unfolding s'_def k_def using assms lt by (intro lstrip_progress) simp_all
    from less[OF this] obtain cs ws where
      run: "\<forall>acc. chunk_loop s' m acc = Some (acc @ cs)"
      and len: "\<forall>c\<in>set cs. int (length c) \<le> m"
      and wl: "length ws = length cs"
      and wsp: "\<forall>w\<in>set ws. \<forall>x\<in>set w. isspace x"
      and cat: "s' = concat (map2 (@) cs ws)"
      by blast
    have step: "chunk_loop s m acc = chunk_loop s' m (acc @ [take k s])" for acc
      unfolding s'_def k_def by (rule chunk_loop_long[OF m0 lt])
    have a: "\<forall>acc. chunk_loop s m acc = Some (acc @ (take k s # cs))"
      using step run by simp
    have "int (length (take k s)) \<le> m" using kle m0 by simp
    then have b: "\<forall>c\<in>set (take k s # cs). int (length c) \<le> m"
      using len by simp
    have "drop k s = w @ s'"
      unfolding w_def s'_def lstrip_def by simp
    then have "s = take k s @ w @ s'"
      by (metis append_take_drop_id)
    then have c3: "s = concat (map2 (@) (take k s # cs) (w # ws))"
      using cat by simp
    have c1: "length (w # ws) = length (take k s # cs)" using wl by simp
    have c2: "\<forall>v\<in>set (w # ws). \<forall>x\<in>set v. isspace x"
      using wsp by (auto simp: w_def dest: set_takeWhileD)
    show ?thesis
      apply (rule exI[of _ "take k s # cs"])
      apply (intro conjI)
        apply (rule a)
       apply (rule b)
      apply (rule exI[of _ "w # ws"])
      apply (intro conjI)
        apply (rule c1)
       apply (rule c2)
      apply (rule c3)
      done
  qed
qed

lemma chunk_string_short:
  "int (length s) \<le> m \<Longrightarrow> chunk_string s m = Some (if s = [] then [] else [s])"
  by (simp add: chunk_string_def chunk_loop_short)

lemma chunk_string_step:
  assumes "1 \<le> m" and "m < int (length s)"
  shows "\<exists>rest. chunk_string (lstrip (drop (split_point s (nat m)) s)) m = Some rest
    \<and> chunk_string s m = Some (take (split_point s (nat m)) s # rest)"
proof -
  let ?s' = "lstrip (drop (split_point s (nat m)) s)"
  from chunk_loop_total[OF assms(1), of ?s'] obtain cs where
    run: "\<forall>acc. chunk_loop ?s' m acc = Some (acc @ cs)"
    by blast
  have m0: "0 \<le> m" using assms by simp
  have "chunk_string ?s' m = Some cs"
    using run by (simp add: chunk_string_def)
  moreover have "chunk_string s m = Some (take (split_point s (nat m)) s # cs)"
    unfolding chunk_string_def chunk_loop_long[OF m0 assms(2)] using run by simp
  ultimately show ?thesis by blast
qed

lemma chunk_string_total:
  assumes "1 \<le> m"
  shows "\<exists>cs. chunk_string s m = Some cs
    \<and> (\<forall>c\<in>set cs. int (length c) \<le> m)
    \<and> (\<exists>ws. length ws = length cs \<and> (\<forall>w\<in>set ws. \<forall>x\<in>set w. isspace x)
          \<and> s = concat (map2 (@) cs ws))"
proof -
  from chunk_loop_total[OF assms, of s] obtain cs where
    run: "\<forall>acc. chunk_loop s m acc = Some (acc @ cs)"
    and rest: "(\<forall>c\<in>set cs. int (length c) \<le> m)
      \<and> (\<exists>ws. length ws = length cs \<and> (\<forall>w\<in>set ws. \<forall>x\<in>set w. isspace x)
          \<and> s = concat (map2 (@) cs ws))"
    by blast
  have "chunk_string s m = Some cs" using run by (simp add: chunk_string_def)
  with rest show ?thesis by blast
qed

subsection \<open>The claims on chunking\<close>

lemma lstrip_no_space: "\<forall>x\<in>set s. \<not> isspace x \<Longrightarrow> lstrip s = s"
  by (cases s) (simp_all add: lstrip_def)

lemma split_point_no_space:
  assumes "\<forall>x\<in>set s. \<not> isspace x"
  shows "split_point s limit = limit"
proof (rule split_point_no_break)
  fix i assume "i < length s"
  then have "\<not> isspace (s ! i)" using assms by simp
  then show "\<not> is_break (s ! i)" using is_break_isspace by blast
qed

lemma chunk_string_4500:
  assumes "length s = 4500" and "\<forall>x\<in>set s. \<not> isspace x"
  shows "chunk_string s 2000 = Some [take 2000 s, take 2000 (drop 2000 s), drop 4000 s]"
proof -
  let ?r = "drop 2000 s"
  have r: "\<forall>x\<in>set ?r. \<not> isspace x" using assms(2) by (meson in_set_dropD)
  have q: "\<forall>x\<in>set (drop 4000 s). \<not> isspace x" using assms(2) by (meson in_set_dropD)
  have n: "nat 2000 = (2000::nat)" by simp
  have e: "drop 2000 ?r = drop 4000 s" by simp
  have "chunk_string (drop 4000 s) 2000 = Some [drop 4000 s]"
    using assms(1) by (simp add: chunk_string_short)
  moreover have "\<exists>rest. chunk_string (lstrip (drop (split_point ?r (nat 2000)) ?r)) 2000
        = Some rest
      \<and> chunk_string ?r 2000 = Some (take (split_point ?r (nat 2000)) ?r # rest)"
    by (rule chunk_string_step) (simp_all add: assms(1))
  then have "\<exists>rest. chunk_string (drop 4000 s) 2000 = Some rest
      \<and> chunk_string ?r 2000 = Some (take 2000 ?r # rest)"
    by (simp only: n split_point_no_space[OF r] e lstrip_no_space[OF q])
  ultimately have two: "chunk_string ?r 2000 = Some [take 2000 ?r, drop 4000 s]"
    by auto
  have "\<exists>rest. chunk_string (lstrip (drop (split_point s (nat 2000)) s)) 2000 = Some rest
      \<and> chunk_string s 2000 = Some (take (split_point s (nat 2000)) s # rest)"
    by (rule chunk_string_step) (simp_all add: assms(1))
  then have "\<exists>rest. chunk_string ?r 2000 = Some rest
      \<and> chunk_string s 2000 = Some (take 2000 s # rest)"
    by (simp only: n split_point_no_space[OF assms(2)] lstrip_no_space[OF r])
  with two show ?thesis by auto
qed

text \<open>
  Claim C8, as amended. For a size limit of at least 1, \<^verbatim>\<open>chunk_string\<close> returns, and
  every chunk has at most limit-many characters. The text is the chunks in their order, each
  followed by a run of whitespace (the whitespace that was stripped at the break; it may be
  empty). A text no longer than the limit is one chunk, and no chunk when it is empty. A
  longer text is cut at the last newline or space among its first limit-many characters, or
  after limit-many characters when there is none; the first chunk is what stands before the
  cut, and the other chunks are those of the rest without its leading whitespace. A text of
  4500 characters without any whitespace character gives, for the limit 2000, three chunks
  whose concatenation is the text.
\<close>

theorem chunk_string_splits:
  assumes "1 \<le> max_length"
  shows "(\<exists>cs. chunk_string text max_length = Some cs
      \<and> (\<forall>c\<in>set cs. int (length c) \<le> max_length)
      \<and> (\<exists>ws. length ws = length cs \<and> (\<forall>w\<in>set ws. \<forall>x\<in>set w. isspace x)
            \<and> text = concat (map2 (@) cs ws)))
    \<and> (int (length text) \<le> max_length
          \<longrightarrow> chunk_string text max_length = Some (if text = [] then [] else [text]))
    \<and> (max_length < int (length text)
          \<longrightarrow> (\<exists>rest. chunk_string (lstrip (drop (split_point text (nat max_length)) text))
                          max_length = Some rest
                \<and> chunk_string text max_length
                    = Some (take (split_point text (nat max_length)) text # rest)))
    \<and> (length text = 4500 \<and> (\<forall>x\<in>set text. \<not> isspace x)
          \<longrightarrow> chunk_string text 2000
                = Some [take 2000 text, take 2000 (drop 2000 text), drop 4000 text]
              \<and> concat [take 2000 text, take 2000 (drop 2000 text), drop 4000 text] = text)"
proof (intro conjI impI)
  show "\<exists>cs. chunk_string text max_length = Some cs
      \<and> (\<forall>c\<in>set cs. int (length c) \<le> max_length)
      \<and> (\<exists>ws. length ws = length cs \<and> (\<forall>w\<in>set ws. \<forall>x\<in>set w. isspace x)
            \<and> text = concat (map2 (@) cs ws))"
    using assms by (rule chunk_string_total)
next
  assume "int (length text) \<le> max_length"
  then show "chunk_string text max_length = Some (if text = [] then [] else [text])"
    by (rule chunk_string_short)
next
  assume "max_length < int (length text)"
  with assms show "\<exists>rest. chunk_string (lstrip (drop (split_point text (nat max_length)) text))
                          max_length = Some rest
                \<and> chunk_string text max_length
                    = Some (take (split_point text (nat max_length)) text # rest)"
    by (rule chunk_string_step)
next
  assume "length text = 4500 \<and> (\<forall>x\<in>set text. \<not> isspace x)"
  then show "chunk_string text 2000
      = Some [take 2000 text, take 2000 (drop 2000 text), drop 4000 text]"
    by (simp add: chunk_string_4500)
next
  have "take 2000 (drop 2000 text) @ drop 4000 text = drop 2000 text"
    using append_take_drop_id[of 2000 "drop 2000 text"] by simp
  then show "concat [take 2000 text, take 2000 (drop 2000 text), drop 4000 text] = text"
    by simp
qed

theorem chunk_string_splits_witness:
  "(1::int) \<le> 2000 \<and> length (replicate 4500 (97::nat)) = 4500 \<and> \<not> isspace 97
   \<and> chunk_string (replicate 4500 97) 2000
       = Some [replicate 2000 97, replicate 2000 97, replicate 500 97]"
proof -
  have a: "(1::int) \<le> 2000" by simp
  have b: "length (replicate 4500 (97::nat)) = 4500" by simp
  have c: "\<forall>x\<in>set (replicate 4500 (97::nat)). \<not> isspace x" by (simp add: isspace_def)
  from chunk_string_splits[OF a, of "replicate 4500 97"] b c
  have "chunk_string (replicate 4500 97) 2000
      = Some [take 2000 (replicate 4500 97), take 2000 (drop 2000 (replicate 4500 97)),
              drop 4000 (replicate 4500 97)]"
    by blast
  then have "chunk_string (replicate 4500 97) 2000
      = Some [replicate 2000 97, replicate 2000 97, replicate 500 97]"
    by simp
  moreover have "\<not> isspace 97" by (simp add: isspace_def)
  ultimately show ?thesis using a b by blast
qed

lemma find_split_stuck: "find_split [97] 0 = 0"
  by (simp add: find_split_def rindex_def slice_bound_def NEWLINE_def SPACE_def Let_def)

lemma lstrip_stuck: "lstrip (slice_from [97] 0) = [97]"
  by (simp add: slice_from_def slice_bound_def lstrip_def isspace_def)

lemma chunk_loop_stuck:
  assumes "chunk_loop s m c = Some r"
  shows "\<not> (s = [97] \<and> m = 0)"
proof (rule chunk_loop.raw_induct[where P = "\<lambda>s m c r. \<not> (s = [97] \<and> m = 0)", OF _ assms])
  fix f :: "pystr \<Rightarrow> int \<Rightarrow> pystr list \<Rightarrow> pystr list option"
  fix s' m' c' r'
  assume IH: "\<And>a b c y. f a b c = Some y \<Longrightarrow> \<not> (a = [97] \<and> b = 0)"
  assume step: "(if m' < int (length s') then
          (let split_index = find_split s' m'
           in f (lstrip (slice_from s' split_index)) m' (c' @ [slice_to s' split_index]))
        else Some (if s' \<noteq> [] then c' @ [s'] else c')) = Some r'"
  show "\<not> (s' = [97] \<and> m' = 0)"
  proof
    assume a: "s' = [97] \<and> m' = 0"
    with step have "f [97] 0 (c' @ [slice_to [97] 0]) = Some r'"
      by (simp add: find_split_stuck lstrip_stuck Let_def)
    from IH[OF this] show False by simp
  qed
qed

text \<open>
  Claim C8 as stated fails twice. For the limit 0 the loop never returns on a text of one
  letter: the cut is at 0 and nothing is stripped. And 2000 letters followed by 2500 tabs are
  4500 characters without newline or space, which give one chunk: the tabs are stripped after
  the forced cut, so the concatenation of the chunks is not the text.
\<close>

theorem chunk_string_limit_zero_and_tabs:
  "chunk_string [97] 0 = None
   \<and> chunk_string (replicate 2000 97 @ replicate 2500 9) 2000 = Some [replicate 2000 97]"
proof
  show "chunk_string [97] 0 = None"
  proof (cases "chunk_string [97] 0")
    case None
    then show ?thesis .
  next
    case (Some r)
    then show ?thesis using chunk_loop_stuck[of "[97]" 0 "[]" r] by (simp add: chunk_string_def)
  qed
next
  let ?s = "replicate 2000 (97::nat) @ replicate 2500 9"
  have sp: "split_point ?s 2000 = 2000"
  proof (rule split_point_no_break)
    fix i :: nat assume "i < 2000"
    then have "?s ! i = 97" by (simp add: nth_append)
    then show "\<not> is_break (?s ! i)" by (simp add: is_break_def NEWLINE_def SPACE_def)
  qed
  have n: "nat 2000 = (2000::nat)" by simp
  have l: "lstrip (drop 2000 ?s) = []" by (simp add: lstrip_def isspace_def)
  have t: "take 2000 ?s = replicate 2000 97" by simp
  have "chunk_string [] 2000 = Some []" by (simp add: chunk_string_short)
  moreover have "\<exists>rest. chunk_string (lstrip (drop (split_point ?s (nat 2000)) ?s)) 2000
        = Some rest
      \<and> chunk_string ?s 2000 = Some (take (split_point ?s (nat 2000)) ?s # rest)"
    by (rule chunk_string_step) simp_all
  then have "\<exists>rest. chunk_string [] 2000 = Some rest
      \<and> chunk_string ?s 2000 = Some (replicate 2000 97 # rest)"
    by (simp only: n sp l t)
  ultimately show "chunk_string ?s 2000 = Some [replicate 2000 97]" by auto
qed

text \<open>
  Claim C10. When the text is longer than the limit and the only newline or space among its
  first limit-many characters is the first character, the first chunk is the empty string;
  the other chunks are those of the text without its leading whitespace.
\<close>

theorem chunk_string_empty_first_chunk:
  assumes "max_length < int (length text)" and "0 < max_length"
    and "is_break (text ! 0)"
    and "\<forall>i. 0 < i \<and> i < nat max_length \<longrightarrow> \<not> is_break (text ! i)"
  shows "\<exists>rest. chunk_string (lstrip text) max_length = Some rest
    \<and> chunk_string text max_length = Some ([] # rest)"
proof -
  have "split_point text (nat max_length) = 0"
  proof (rule Max_break_eqI)
    show "0 < nat max_length" using assms(2) by simp
    show "0 < length text" using assms(1,2) by (cases "text") auto
    show "is_break (text ! 0)" by (rule assms(3))
    fix j assume "0 < j" "j < nat max_length"
    then show "\<not> is_break (text ! j)" using assms(4) by simp
  qed
  moreover have "1 \<le> max_length" using assms(2) by simp
  ultimately show ?thesis using chunk_string_step[of max_length "text"] assms(1) by simp
qed

theorem chunk_string_empty_first_chunk_witness:
  "(2::int) < int (length [32, 97, 98::nat]) \<and> (0::int) < 2 \<and> is_break ([32, 97, 98] ! 0)
   \<and> \<not> is_break ([32, 97, 98] ! 1)
   \<and> chunk_string [32, 97, 98] 2 = Some [[], [97, 98]]"
proof -
  have a: "(2::int) < int (length [32, 97, 98::nat])" by simp
  have b: "(0::int) < 2" by simp
  have c: "is_break ([32, 97, 98] ! 0)" by (simp add: is_break_def SPACE_def)
  have d: "\<forall>i. 0 < i \<and> i < nat 2 \<longrightarrow> \<not> is_break ([32, 97, 98] ! i)"
  proof (intro allI impI)
    fix i :: nat assume "0 < i \<and> i < nat 2"
    then have "i = 1" by simp
    then show "\<not> is_break ([32, 97, 98] ! i)" by (simp add: is_break_def NEWLINE_def SPACE_def)
  qed
  have l: "lstrip [32, 97, 98] = [97, 98]" by (simp add: lstrip_def isspace_def)
  have "chunk_string [97, 98] 2 = Some [[97, 98]]" by (simp add: chunk_string_short)
  moreover from chunk_string_empty_first_chunk[OF a b c d]
  have "\<exists>rest. chunk_string [97, 98] 2 = Some rest
      \<and> chunk_string [32, 97, 98] 2 = Some ([] # rest)"
    by (simp only: l)
  ultimately have "chunk_string [32, 97, 98] 2 = Some [[], [97, 98]]" by auto
  moreover have "\<not> is_break ([32, 97, 98] ! 1)"
    by (simp add: is_break_def NEWLINE_def SPACE_def)
  ultimately show ?thesis using a b c by blast
qed

end
